theory Spec2Isabelle
  imports Main "HOL-Library.Sublist"
begin

section \<open>Cast evaluation: shared data model (CastExpr-inl.h)\<close>

text \<open>
  The cast kernels of \<^verbatim>\<open>CastExpr-inl.h\<close> are templates over the source and target
  \<^verbatim>\<open>TypeKind\<close> and over the cast policy. The model turns the template parameters into
  ordinary arguments. Exceptions are values: a function that can throw returns
  \<open>VeloxException + state\<close>, with \<open>Inl\<close> for the exception that leaves the function.
\<close>

datatype TypeKind =
  BOOLEAN | TINYINT | SMALLINT | INTEGER | BIGINT | HUGEINT | REAL | DOUBLE
  | TIMESTAMP | VARCHAR | VARBINARY | ARRAY | MAP | ROW | FUNCTION | UNKNOWN

datatype CastPolicy = LegacyCastPolicy | PrestoCastPolicy | SparkCastPolicy | SparkTryCastPolicy

text \<open>
  \<^verbatim>\<open>VeloxException\<close> with \<^verbatim>\<open>isUserError()\<close> true is \<open>VeloxUserError\<close>, with it false is
  \<open>VeloxRuntimeError\<close>; \<open>StdException\<close> is a \<^verbatim>\<open>std::exception\<close> that is not a
  \<^verbatim>\<open>VeloxException\<close>.
\<close>

datatype VeloxException =
  VeloxUserError string | VeloxRuntimeError string | StdException string

fun isUserError :: "VeloxException \<Rightarrow> bool" where
  "isUserError (VeloxUserError m) = True"
| "isUserError (VeloxRuntimeError m) = False"
| "isUserError (StdException m) = False"

fun message :: "VeloxException \<Rightarrow> string" where
  "message (VeloxUserError m) = m"
| "message (VeloxRuntimeError m) = m"
| "message (StdException m) = m"

text \<open>
  A flat result vector: a null bit and a raw value per row. The functions on it are
  written for every extension of the record, so that a vector of strings can carry its
  string buffer.
\<close>

record 'a FlatVector =
  nulls :: "nat \<Rightarrow> bool"
  rawValues :: "nat \<Rightarrow> 'a"

definition setNull :: "('a, 'z) FlatVector_scheme \<Rightarrow> nat \<Rightarrow> ('a, 'z) FlatVector_scheme" where
  "setNull v row = v\<lparr>nulls := (nulls v)(row := True)\<rparr>"

definition setValue :: "('a, 'z) FlatVector_scheme \<Rightarrow> nat \<Rightarrow> 'a \<Rightarrow> ('a, 'z) FlatVector_scheme" where
  "setValue v row x = v\<lparr>nulls := (nulls v)(row := False), rawValues := (rawValues v)(row := x)\<rparr>"

definition setRaw :: "('a, 'z) FlatVector_scheme \<Rightarrow> nat \<Rightarrow> 'a \<Rightarrow> ('a, 'z) FlatVector_scheme" where
  "setRaw v row x = v\<lparr>rawValues := (rawValues v)(row := x)\<rparr>"

definition clearNulls :: "nat list \<Rightarrow> ('a, 'z) FlatVector_scheme \<Rightarrow> ('a, 'z) FlatVector_scheme" where
  "clearNulls rows v = v\<lparr>nulls := (\<lambda>r. if r \<in> set rows then False else nulls v r)\<rparr>"

text \<open>
  What the evaluation context records for a row. \<open>UserErrorStatus\<close> is what
  \<^verbatim>\<open>setStatus(row, Status::UserError(...))\<close> records: with the formatted message, or
  without one. \<open>ExceptionPtr\<close> is what \<^verbatim>\<open>setVeloxExceptionError\<close> and \<^verbatim>\<open>setError\<close>
  record.
\<close>

datatype ErrorEntry = UserErrorStatus "string option" | ExceptionPtr VeloxException

record EvalCtx =
  captureErrorDetails :: bool
  errors :: "nat \<Rightarrow> ErrorEntry option"

text \<open>
  Modelled from the spec: \<^verbatim>\<open>EvalCtx::setStatus\<close>, \<^verbatim>\<open>EvalCtx::setError\<close> and
  \<^verbatim>\<open>EvalCtx::setVeloxExceptionError\<close> are not under src; section 6.2 of the spec lists
  them as the calls that record an error for a row of the batch.
\<close>

definition setStatus :: "EvalCtx \<Rightarrow> nat \<Rightarrow> string option \<Rightarrow> EvalCtx" where
  "setStatus context row status = context\<lparr>errors := (errors context)(row := Some (UserErrorStatus status))\<rparr>"

definition setVeloxExceptionError :: "EvalCtx \<Rightarrow> nat \<Rightarrow> VeloxException \<Rightarrow> EvalCtx" where
  "setVeloxExceptionError context row e = context\<lparr>errors := (errors context)(row := Some (ExceptionPtr e))\<rparr>"

definition setError :: "EvalCtx \<Rightarrow> nat \<Rightarrow> VeloxException \<Rightarrow> EvalCtx" where
  "setError context row e = context\<lparr>errors := (errors context)(row := Some (ExceptionPtr e))\<rparr>"

text \<open>
  \<^verbatim>\<open>makeErrorMessage\<close>: \<^verbatim>\<open>fmt::format("Cannot cast {} '{}' to {}. {}", ...)\<close>. The three
  \<^verbatim>\<open>toString\<close> results (source type, source value at the row, target type) are
  arguments.
\<close>

definition makeErrorMessage :: "string \<Rightarrow> string \<Rightarrow> string \<Rightarrow> string \<Rightarrow> string" where
  "makeErrorMessage inputType inputValue toType details =
     ''Cannot cast '' @ inputType @ '' '' @ [CHR 0x27] @ inputValue @ [CHR 0x27] @ '' to '' @ toType
       @ ''. '' @ details"

definition makeBadCastException :: "string \<Rightarrow> string \<Rightarrow> string \<Rightarrow> string \<Rightarrow> VeloxException" where
  "makeBadCastException resultType inputType inputValue errorDetails =
     VeloxUserError (makeErrorMessage inputType inputValue resultType errorDetails)"

text \<open>
  \<^verbatim>\<open>applyToSelectedNoThrowLocal\<close>: runs \<open>func\<close> on every selected row in ascending
  order. A \<^verbatim>\<open>VeloxException\<close> that is not a user error is rethrown and ends the loop.
  A user error or a \<^verbatim>\<open>std::exception\<close> nulls the row when
  \<^verbatim>\<open>setNullInResultAtError()\<close> holds and is recorded in the context otherwise.
\<close>

fun applyToSelectedNoThrowLocal ::
  "bool
     \<Rightarrow> (nat \<Rightarrow> ('a, 'z) FlatVector_scheme \<times> EvalCtx
           \<Rightarrow> VeloxException + ('a, 'z) FlatVector_scheme \<times> EvalCtx)
     \<Rightarrow> nat list \<Rightarrow> ('a, 'z) FlatVector_scheme \<times> EvalCtx
     \<Rightarrow> VeloxException + ('a, 'z) FlatVector_scheme \<times> EvalCtx" where
  "applyToSelectedNoThrowLocal setNullInResultAtError func [] st = Inr st"
| "applyToSelectedNoThrowLocal setNullInResultAtError func (row # rows) (result, context) =
     (case func row (result, context) of
        Inr st' \<Rightarrow> applyToSelectedNoThrowLocal setNullInResultAtError func rows st'
      | Inl (VeloxRuntimeError m) \<Rightarrow> Inl (VeloxRuntimeError m)
      | Inl (VeloxUserError m) \<Rightarrow>
          (if setNullInResultAtError
           then applyToSelectedNoThrowLocal setNullInResultAtError func rows (setNull result row, context)
           else applyToSelectedNoThrowLocal setNullInResultAtError func rows
                  (result, setVeloxExceptionError context row (VeloxUserError m)))
      | Inl (StdException m) \<Rightarrow>
          (if setNullInResultAtError
           then applyToSelectedNoThrowLocal setNullInResultAtError func rows (setNull result row, context)
           else applyToSelectedNoThrowLocal setNullInResultAtError func rows
                  (result, setError context row (StdException m))))"

section \<open>Decimal to integral cast\<close>

text \<open>
  C++ integer division truncates towards zero and the remainder has the sign of the
  dividend; HOL's \<open>div\<close> and \<open>mod\<close> round down. Decimal values and
  \<^verbatim>\<open>DecimalUtil::kPowersOfTen\<close> are 128-bit; an unscaled value of at most 38 digits and
  the steps below stay far inside that range, so they are modelled on \<open>int\<close>. Only the
  final \<^verbatim>\<open>static_cast<To>\<close> can leave the range of its type, and wraps.
\<close>

definition truncDiv :: "int \<Rightarrow> int \<Rightarrow> int" where
  "truncDiv a b = sgn a * sgn b * (\<bar>a\<bar> div \<bar>b\<bar>)"

definition truncMod :: "int \<Rightarrow> int \<Rightarrow> int" where
  "truncMod a b = a - truncDiv a b * b"

text \<open>
  Modelled from the spec: \<^verbatim>\<open>DecimalUtil::kPowersOfTen\<close> is not under src; the spec
  names the entry at index \<open>scale\<close> as \<open>10^scale\<close>.
\<close>

definition kPowersOfTen :: "nat \<Rightarrow> int" where
  "kPowersOfTen scale = 10 ^ scale"

fun bitWidth :: "TypeKind \<Rightarrow> nat" where
  "bitWidth TINYINT = 8"
| "bitWidth SMALLINT = 16"
| "bitWidth INTEGER = 32"
| "bitWidth BIGINT = 64"
| "bitWidth HUGEINT = 128"
| "bitWidth k = 0"

definition numericLimitsMax :: "TypeKind \<Rightarrow> int" where
  "numericLimitsMax k = 2 ^ (bitWidth k - 1) - 1"

definition numericLimitsMin :: "TypeKind \<Rightarrow> int" where
  "numericLimitsMin k = - (2 ^ (bitWidth k - 1))"

text \<open>\<^verbatim>\<open>static_cast<To>\<close> of a wider signed integer: the value modulo \<open>2^w\<close>, read as two's complement.\<close>

definition staticCast :: "TypeKind \<Rightarrow> int \<Rightarrow> int" where
  "staticCast k x = (x + 2 ^ (bitWidth k - 1)) mod 2 ^ bitWidth k - 2 ^ (bitWidth k - 1)"

text \<open>
  Native values of the scalar kinds. A floating-point value is kept symbolic (not a
  number, an infinity with its sign, or mantissa and binary exponent); a timestamp is
  seconds and nanoseconds.
\<close>

datatype Floating = FpNaN | FpInf bool | FpVal int int

datatype NativeValue =
  BoolValue bool | IntValue int | FloatValue Floating | StringValue string | TimestampValue int int

text \<open>
  \<^verbatim>\<open>Expected<T>\<close>: a value or a \<^verbatim>\<open>Status\<close> with a user-error message. A call that
  can also throw returns \<open>'a Thrown\<close>.
\<close>

datatype 'a Expected = Value 'a | Error string

datatype 'a Thrown = Returns 'a | Throws VeloxException

text \<open>
  \<^verbatim>\<open>CastHooks\<close> (section 6.3 of the spec; the class is not under src). The member
  \<^verbatim>\<open>truncate()\<close> is the field \<open>truncateHook\<close>, since the record package reserves
  the name \<open>truncate\<close>.
\<close>

record CastHooks =
  truncateHook :: bool
  getPolicy :: CastPolicy
  removeWhiteSpaces :: "string \<Rightarrow> string"
  castIntToTimestamp :: "NativeValue \<Rightarrow> NativeValue Expected Thrown"
  castBooleanToTimestamp :: "NativeValue \<Rightarrow> NativeValue Expected Thrown"
  castTimestampToInt :: "NativeValue \<Rightarrow> NativeValue Expected Thrown"
  castDoubleToTimestamp :: "NativeValue \<Rightarrow> NativeValue option Expected Thrown"
  castStringToTimestamp :: "string \<Rightarrow> NativeValue Expected Thrown"
  castStringToReal :: "string \<Rightarrow> NativeValue Expected Thrown"
  castStringToDouble :: "string \<Rightarrow> NativeValue Expected Thrown"

text \<open>The strings the error messages are built from.\<close>

record CastStrings =
  inputTypeString :: string
  inputToString :: "nat \<Rightarrow> string"
  toTypeString :: string

definition decimalToIntegralRow ::
  "CastHooks \<Rightarrow> bool \<Rightarrow> CastStrings \<Rightarrow> (nat \<Rightarrow> int) \<Rightarrow> nat \<Rightarrow> TypeKind \<Rightarrow> nat
     \<Rightarrow> int FlatVector \<times> EvalCtx \<Rightarrow> VeloxException + int FlatVector \<times> EvalCtx" where
  "decimalToIntegralRow hooks setNullInResultAtError strs simpleInput scale toKind row st =
     (case st of (result, context) \<Rightarrow>
        (let scaleFactor = kPowersOfTen scale;
             value = simpleInput row;
             integralPart = truncDiv value scaleFactor;
             integralPart =
               (if getPolicy hooks \<noteq> SparkTryCastPolicy
                then (let fractionPart = truncMod value scaleFactor;
                          sign = (if value \<ge> 0 then 1 else -1);
                          needsRoundUp = (scaleFactor \<noteq> 1 \<and> sign * fractionPart \<ge> scaleFactor div 2)
                      in integralPart + (if needsRoundUp then sign else 0))
                else integralPart)
         in if integralPart > numericLimitsMax toKind \<or> integralPart < numericLimitsMin toKind
            then (if setNullInResultAtError
                  then Inr (setNull result row, context)
                  else Inr (result,
                         setVeloxExceptionError context row
                           (makeBadCastException (toTypeString strs) (inputTypeString strs)
                              (inputToString strs row)
                              (makeErrorMessage (inputTypeString strs) (inputToString strs row)
                                 (toTypeString strs) [] @ ''Out of bounds.''))))
            else Inr (setRaw result row (staticCast toKind integralPart), context)))"

definition decimalToIntegralTruncateRow ::
  "(nat \<Rightarrow> int) \<Rightarrow> nat \<Rightarrow> TypeKind \<Rightarrow> nat
     \<Rightarrow> int FlatVector \<times> EvalCtx \<Rightarrow> VeloxException + int FlatVector \<times> EvalCtx" where
  "decimalToIntegralTruncateRow simpleInput scale toKind row st =
     (case st of (result, context) \<Rightarrow>
        Inr (setRaw result row (staticCast toKind (truncDiv (simpleInput row) (kPowersOfTen scale))), context))"

text \<open>
  \<^verbatim>\<open>applyDecimalToIntegralCast\<close>. \<open>result0\<close> is the vector that
  \<^verbatim>\<open>ensureWritable\<close> hands out; its nulls are cleared for the selected rows.
\<close>

definition applyDecimalToIntegralCast ::
  "CastHooks \<Rightarrow> bool \<Rightarrow> CastStrings \<Rightarrow> nat list \<Rightarrow> (nat \<Rightarrow> int) \<Rightarrow> EvalCtx \<Rightarrow> nat \<Rightarrow> TypeKind
     \<Rightarrow> int FlatVector \<Rightarrow> VeloxException + int FlatVector \<times> EvalCtx" where
  "applyDecimalToIntegralCast hooks setNullInResultAtError strs rows simpleInput context scale toKind result0 =
     (let result = clearNulls rows result0
      in if truncateHook hooks
         then applyToSelectedNoThrowLocal setNullInResultAtError
                (decimalToIntegralTruncateRow simpleInput scale toKind) rows (result, context)
         else applyToSelectedNoThrowLocal setNullInResultAtError
                (decimalToIntegralRow hooks setNullInResultAtError strs simpleInput scale toKind) rows
                (result, context))"


definition cellOf :: "('a, 'z) FlatVector_scheme \<times> EvalCtx \<Rightarrow> nat \<Rightarrow> bool \<times> 'a \<times> ErrorEntry option" where
  "cellOf st row = (nulls (fst st) row, rawValues (fst st) row, errors (snd st) row)"

text \<open>
  The integral part as the spec words it: the quotient truncated towards zero under
  \<^verbatim>\<open>SparkTryCastPolicy\<close>, and the quotient rounded half away from zero under the
  other policies.
\<close>

definition roundHalfAwayFromZero :: "int \<Rightarrow> int \<Rightarrow> int" where
  "roundHalfAwayFromZero v sf = sgn v * ((2 * \<bar>v\<bar> + sf) div (2 * sf))"

definition integralPartOf :: "CastHooks \<Rightarrow> int \<Rightarrow> nat \<Rightarrow> int" where
  "integralPartOf hooks v scale =
     (if getPolicy hooks = SparkTryCastPolicy then truncDiv v (10 ^ scale)
      else roundHalfAwayFromZero v (10 ^ scale))"

definition inRange :: "TypeKind \<Rightarrow> int \<Rightarrow> bool" where
  "inRange k x = (numericLimitsMin k \<le> x \<and> x \<le> numericLimitsMax k)"

definition exampleHooks :: "bool \<Rightarrow> CastPolicy \<Rightarrow> CastHooks" where
  "exampleHooks t p =
     \<lparr>truncateHook = t, getPolicy = p, removeWhiteSpaces = filter (\<lambda>c. c \<noteq> CHR '' ''),
      castIntToTimestamp = (\<lambda>i. Returns (Error ''unsupported'')),
      castBooleanToTimestamp = (\<lambda>b. Returns (Error ''unsupported'')),
      castTimestampToInt = (\<lambda>t. Returns (Error ''unsupported'')),
      castDoubleToTimestamp =
        (\<lambda>d. if d = FloatValue FpNaN then Returns (Value None)
             else Returns (Error ''unsupported'')),
      castStringToTimestamp = (\<lambda>s. Returns (Error ''unsupported'')),
      castStringToReal = (\<lambda>s. Returns (Error ''unsupported'')),
      castStringToDouble = (\<lambda>s. Returns (Error ''unsupported''))\<rparr>"

definition exampleStrings :: "string \<Rightarrow> string \<Rightarrow> string \<Rightarrow> CastStrings" where
  "exampleStrings fromT v toT = \<lparr>inputTypeString = fromT, inputToString = (\<lambda>row. v), toTypeString = toT\<rparr>"

definition emptyVector :: "int FlatVector" where
  "emptyVector = \<lparr>nulls = (\<lambda>row. False), rawValues = (\<lambda>row. 0)\<rparr>"

definition emptyCtx :: "bool \<Rightarrow> EvalCtx" where
  "emptyCtx details = \<lparr>captureErrorDetails = details, errors = (\<lambda>row. None)\<rparr>"

definition outOfBoundsError :: "CastStrings \<Rightarrow> nat \<Rightarrow> VeloxException" where
  "outOfBoundsError strs row =
     makeBadCastException (toTypeString strs) (inputTypeString strs) (inputToString strs row)
       (makeErrorMessage (inputTypeString strs) (inputToString strs row) (toTypeString strs) []
          @ ''Out of bounds.'')"

definition constantInput :: "int \<Rightarrow> nat \<Rightarrow> int" where
  "constantInput v row = v"

section \<open>The per-row cast kernel\<close>

text \<open>
  \<^verbatim>\<open>Converter<ToKind, void, TPolicy>::tryCast\<close> is not under src: the model takes it as
  the argument \<open>tryCast\<close>, from target kind, policy and value to an \<open>Expected\<close> result
  or a thrown exception. The hooks are passed native values; the template parameters
  fix which constructor of \<open>NativeValue\<close> a vector of a kind holds, and \<open>stringOf\<close>
  reads the \<^verbatim>\<open>StringView\<close> of a VARCHAR or VARBINARY row.
\<close>

type_synonym Converter = "TypeKind \<Rightarrow> CastPolicy \<Rightarrow> NativeValue \<Rightarrow> NativeValue Expected Thrown"

fun stringOf :: "NativeValue \<Rightarrow> string" where
  "stringOf (StringValue s) = s"
| "stringOf v = []"

definition isIntegerKind :: "TypeKind \<Rightarrow> bool" where
  "isIntegerKind k = (k = TINYINT \<or> k = SMALLINT \<or> k = INTEGER \<or> k = BIGINT)"

text \<open>
  Modelled from the spec: \<^verbatim>\<open>TypeTraits<ToKind>::isPrimitiveType\<close> and
  \<^verbatim>\<open>TypeTraits<ToKind>::isFixedWidth\<close> are not under src. The spec calls these targets
  the fixed-width primitives and counts TIMESTAMP among them; VARCHAR and VARBINARY are
  variable-width, and ARRAY, MAP, ROW and FUNCTION are not primitive.
\<close>

definition isFixedWidthPrimitive :: "TypeKind \<Rightarrow> bool" where
  "isFixedWidthPrimitive k =
     (k = BOOLEAN \<or> k = TINYINT \<or> k = SMALLINT \<or> k = INTEGER \<or> k = BIGINT \<or> k = HUGEINT
      \<or> k = REAL \<or> k = DOUBLE \<or> k = TIMESTAMP)"

text \<open>
  Modelled from the spec: the policy structs \<^verbatim>\<open>util::*CastPolicy\<close> are not under src.
  The policy table of the spec sets \<^verbatim>\<open>throwOnUnicode\<close> for the two Spark policies.
\<close>

definition throwOnUnicode :: "CastPolicy \<Rightarrow> bool" where
  "throwOnUnicode p = (p = SparkCastPolicy \<or> p = SparkTryCastPolicy)"

definition isAscii :: "string \<Rightarrow> bool" where
  "isAscii s = list_all (\<lambda>c. (of_char c :: nat) < 128) s"

text \<open>
  The lambda \<^verbatim>\<open>setError\<close> of \<^verbatim>\<open>applyCastKernel\<close>. In a strict cast it also clears
  \<^verbatim>\<open>wrapException\<close>; every call of it in the try block is followed by a return, so the
  flag is still true whenever the try block throws.
\<close>

definition castSetError ::
  "bool \<Rightarrow> CastStrings \<Rightarrow> nat \<Rightarrow> string \<Rightarrow> NativeValue FlatVector \<times> EvalCtx
     \<Rightarrow> NativeValue FlatVector \<times> EvalCtx" where
  "castSetError setNullInResultAtError strs row details st =
     (case st of (result, context) \<Rightarrow>
        if setNullInResultAtError then (setNull result row, context)
        else if captureErrorDetails context
             then (result, setStatus context row
                     (Some (makeErrorMessage (inputTypeString strs) (inputToString strs row)
                              (toTypeString strs) details)))
             else (result, setStatus context row None))"

text \<open>The lambda \<^verbatim>\<open>setResultOrError\<close>, applied to what a hook returned or threw.\<close>

definition setResultOrError ::
  "bool \<Rightarrow> CastStrings \<Rightarrow> nat \<Rightarrow> NativeValue Expected Thrown \<Rightarrow> NativeValue FlatVector \<times> EvalCtx
     \<Rightarrow> VeloxException + NativeValue FlatVector \<times> EvalCtx" where
  "setResultOrError setNullInResultAtError strs row castResult st =
     (case castResult of
        Throws e \<Rightarrow> Inl e
      | Returns (Error m) \<Rightarrow> Inr (castSetError setNullInResultAtError strs row m st)
      | Returns (Value v) \<Rightarrow> Inr (setValue (fst st) row v, snd st))"

text \<open>The try block of \<^verbatim>\<open>applyCastKernel\<close>, branch by branch in the order of the source.\<close>

definition castKernelTry ::
  "TypeKind \<Rightarrow> TypeKind \<Rightarrow> CastPolicy \<Rightarrow> CastHooks \<Rightarrow> Converter \<Rightarrow> bool \<Rightarrow> CastStrings
     \<Rightarrow> (nat \<Rightarrow> NativeValue) \<Rightarrow> nat \<Rightarrow> NativeValue FlatVector \<times> EvalCtx
     \<Rightarrow> VeloxException + NativeValue FlatVector \<times> EvalCtx" where
  "castKernelTry toKind fromKind policy hooks tryCast setNullInResultAtError strs input row st =
     (let inputRowValue = input row
      in if isIntegerKind fromKind \<and> toKind = TIMESTAMP
         then setResultOrError setNullInResultAtError strs row (castIntToTimestamp hooks inputRowValue) st
         else if fromKind = BOOLEAN \<and> toKind = TIMESTAMP
         then setResultOrError setNullInResultAtError strs row (castBooleanToTimestamp hooks inputRowValue) st
         else if isIntegerKind toKind \<and> fromKind = TIMESTAMP
         then setResultOrError setNullInResultAtError strs row (castTimestampToInt hooks inputRowValue) st
         else if (fromKind = DOUBLE \<or> fromKind = REAL) \<and> toKind = TIMESTAMP
         then (case castDoubleToTimestamp hooks inputRowValue of
                 Throws e \<Rightarrow> Inl e
               | Returns (Error m) \<Rightarrow> Inr (castSetError setNullInResultAtError strs row m st)
               | Returns (Value (Some v)) \<Rightarrow> Inr (setValue (fst st) row v, snd st)
               | Returns (Value None) \<Rightarrow> Inr (setNull (fst st) row, snd st))
         else
           (let stripped =
                  (if (fromKind = VARCHAR \<or> fromKind = VARBINARY) \<and> isFixedWidthPrimitive toKind
                   then StringValue (removeWhiteSpaces hooks (stringOf inputRowValue))
                   else inputRowValue)
            in if (fromKind = VARCHAR \<or> fromKind = VARBINARY) \<and> isFixedWidthPrimitive toKind
                  \<and> length (stringOf stripped) = 0
               then Inr (castSetError setNullInResultAtError strs row ''Empty string'' st)
               else if (fromKind = VARCHAR \<or> fromKind = VARBINARY) \<and> toKind = TIMESTAMP
               then setResultOrError setNullInResultAtError strs row
                      (castStringToTimestamp hooks (stringOf stripped)) st
               else if (fromKind = VARCHAR \<or> fromKind = VARBINARY) \<and> toKind = REAL
               then setResultOrError setNullInResultAtError strs row
                      (castStringToReal hooks (stringOf stripped)) st
               else if (fromKind = VARCHAR \<or> fromKind = VARBINARY) \<and> toKind = DOUBLE
               then setResultOrError setNullInResultAtError strs row
                      (castStringToDouble hooks (stringOf stripped)) st
               else if (fromKind = VARCHAR \<or> fromKind = VARBINARY)
                       \<and> (isIntegerKind toKind \<or> toKind = HUGEINT)
                       \<and> throwOnUnicode policy \<and> \<not> isAscii (stringOf stripped)
               then Inl (VeloxUserError
                           ''Unicode characters are not supported for conversion to integer types'')
               else (case tryCast toKind policy stripped of
                       Throws e \<Rightarrow> Inl e
                     | Returns (Error m) \<Rightarrow> Inr (castSetError setNullInResultAtError strs row m st)
                     | Returns (Value output) \<Rightarrow> Inr (setValue (fst st) row output, snd st))))"

text \<open>
  \<^verbatim>\<open>applyCastKernel\<close>: the try block and its two handlers. \<open>wrapException\<close> is the
  value of the flag when the exception is caught.
\<close>

definition castKernelCatch ::
  "bool \<Rightarrow> bool \<Rightarrow> CastStrings \<Rightarrow> nat \<Rightarrow> VeloxException \<Rightarrow> NativeValue FlatVector \<times> EvalCtx
     \<Rightarrow> VeloxException + NativeValue FlatVector \<times> EvalCtx" where
  "castKernelCatch wrapException setNullInResultAtError strs row e st =
     (case e of
        StdException m \<Rightarrow> Inr (castSetError setNullInResultAtError strs row m st)
      | _ \<Rightarrow> if \<not> isUserError e \<or> \<not> wrapException then Inl e
             else Inr (castSetError setNullInResultAtError strs row (message e) st))"

definition applyCastKernel ::
  "TypeKind \<Rightarrow> TypeKind \<Rightarrow> CastPolicy \<Rightarrow> CastHooks \<Rightarrow> Converter \<Rightarrow> bool \<Rightarrow> CastStrings
     \<Rightarrow> (nat \<Rightarrow> NativeValue) \<Rightarrow> nat \<Rightarrow> NativeValue FlatVector \<times> EvalCtx
     \<Rightarrow> VeloxException + NativeValue FlatVector \<times> EvalCtx" where
  "applyCastKernel toKind fromKind policy hooks tryCast setNullInResultAtError strs input row st =
     (case castKernelTry toKind fromKind policy hooks tryCast setNullInResultAtError strs input row st of
        Inr st' \<Rightarrow> Inr st'
      | Inl e \<Rightarrow> castKernelCatch True setNullInResultAtError strs row e st)"


section \<open>Cast kernel: the conversion of a row as the spec has it\<close>

text \<open>
  The conversion of a row as the spec has it, to be compared with the kernel: the state
  machine \<^verbatim>\<open>Reading -> Converted | Failed\<close>. A row is converted to a value, or to null
  (the hook for DOUBLE or REAL to TIMESTAMP returned no value); or its conversion failed
  with details, because the hook or the converter returned an error or threw a user
  error or a \<^verbatim>\<open>std::exception\<close>; or a non-user (system) error aborted it.
\<close>

datatype RowOutcome = Converted NativeValue | ConvertedToNull | Failed string | Aborted VeloxException

fun outcomeOf :: "NativeValue option Expected Thrown \<Rightarrow> RowOutcome" where
  "outcomeOf (Returns (Value (Some v))) = Converted v"
| "outcomeOf (Returns (Value None)) = ConvertedToNull"
| "outcomeOf (Returns (Error m)) = Failed m"
| "outcomeOf (Throws (VeloxUserError m)) = Failed m"
| "outcomeOf (Throws (StdException m)) = Failed m"
| "outcomeOf (Throws (VeloxRuntimeError m)) = Aborted (VeloxRuntimeError m)"

fun withValue :: "NativeValue Expected Thrown \<Rightarrow> NativeValue option Expected Thrown" where
  "withValue (Returns (Value v)) = Returns (Value (Some v))"
| "withValue (Returns (Error m)) = Returns (Error m)"
| "withValue (Throws e) = Throws e"

text \<open>
  What converts a stripped or unstripped string into a fixed-width primitive: the hooks
  for TIMESTAMP, REAL and DOUBLE, the rejection of non-ASCII input for the integer
  targets under a policy with \<^verbatim>\<open>throwOnUnicode\<close>, and otherwise the converter.
\<close>

definition stringConversion ::
  "TypeKind \<Rightarrow> CastPolicy \<Rightarrow> CastHooks \<Rightarrow> Converter \<Rightarrow> string \<Rightarrow> NativeValue Expected Thrown" where
  "stringConversion toKind policy hooks tryCast x =
     (if toKind = TIMESTAMP then castStringToTimestamp hooks x
      else if toKind = REAL then castStringToReal hooks x
      else if toKind = DOUBLE then castStringToDouble hooks x
      else if (isIntegerKind toKind \<or> toKind = HUGEINT) \<and> throwOnUnicode policy \<and> \<not> isAscii x
      then Throws (VeloxUserError ''Unicode characters are not supported for conversion to integer types'')
      else tryCast toKind policy (StringValue x))"

text \<open>
  What the conversion of the value of a row returns or throws, by source and target
  kind: the timestamp hooks; for a string source and a fixed-width primitive target the
  conversion of the string stripped by \<^verbatim>\<open>removeWhiteSpaces\<close>, or the error "Empty string"
  when nothing is left of it; and the converter in every other case.
\<close>

definition rowConversion ::
  "TypeKind \<Rightarrow> TypeKind \<Rightarrow> CastPolicy \<Rightarrow> CastHooks \<Rightarrow> Converter \<Rightarrow> NativeValue
     \<Rightarrow> NativeValue option Expected Thrown" where
  "rowConversion toKind fromKind policy hooks tryCast v =
     (if isIntegerKind fromKind \<and> toKind = TIMESTAMP then withValue (castIntToTimestamp hooks v)
      else if fromKind = BOOLEAN \<and> toKind = TIMESTAMP then withValue (castBooleanToTimestamp hooks v)
      else if isIntegerKind toKind \<and> fromKind = TIMESTAMP then withValue (castTimestampToInt hooks v)
      else if (fromKind = DOUBLE \<or> fromKind = REAL) \<and> toKind = TIMESTAMP then castDoubleToTimestamp hooks v
      else if (fromKind = VARCHAR \<or> fromKind = VARBINARY) \<and> isFixedWidthPrimitive toKind
      then (if removeWhiteSpaces hooks (stringOf v) = [] then Returns (Error ''Empty string'')
            else withValue (stringConversion toKind policy hooks tryCast (removeWhiteSpaces hooks (stringOf v))))
      else withValue (tryCast toKind policy v))"

text \<open>Example inputs for the closed theorems about the kernel.\<close>

definition exampleConverter :: Converter where
  "exampleConverter toKind policy v =
     (if isIntegerKind toKind \<and> v = StringValue ''12'' then Returns (Value (IntValue 12))
      else Returns (Error ''Invalid input''))"

definition constantColumn :: "NativeValue \<Rightarrow> nat \<Rightarrow> NativeValue" where
  "constantColumn v row = v"

definition emptyNativeVector :: "NativeValue FlatVector" where
  "emptyNativeVector = \<lparr>nulls = (\<lambda>row. False), rawValues = (\<lambda>row. IntValue 0)\<rparr>"


section \<open>Decimal to VARCHAR cast\<close>

text \<open>
  A \<^verbatim>\<open>StringView\<close> built by \<^verbatim>\<open>StringView(data, size)\<close> holds a copy of the
  characters when the size is inline, and otherwise points at \<open>data\<close>: into the string
  buffer of the vector at an offset, or at the local array \<^verbatim>\<open>inlined\<close>.
\<close>

datatype StringView = Inlined string | InBuffer nat nat | InLocalArray nat

fun viewSize :: "StringView \<Rightarrow> nat" where
  "viewSize (Inlined s) = length s"
| "viewSize (InBuffer offset n) = n"
| "viewSize (InLocalArray n) = n"

text \<open>
  The string buffer that \<^verbatim>\<open>getBufferWithSpace\<close> returns: its bytes by offset and its
  recorded size. A vector of strings extends the flat vector with this buffer, with the
  local \<^verbatim>\<open>rawBuffer\<close> of \<^verbatim>\<open>applyDecimalToVarcharCast\<close> (as an offset from the start of
  the buffer; the lambdas capture it by reference) and with \<open>written\<close>, the list of the
  regions (offset, length) of the buffer that \<^verbatim>\<open>castToString\<close> wrote, latest first.
\<close>

record StringBuffer =
  bufferBytes :: "nat \<Rightarrow> char"
  bufferSize :: nat

record StringVector = "StringView FlatVector" +
  stringBuffer :: StringBuffer
  rawBuffer :: nat
  written :: "(nat \<times> nat) list"

text \<open>
  \<^verbatim>\<open>DecimalUtil::castToString\<close>, \<^verbatim>\<open>DecimalUtil::maxStringViewSize\<close> and
  \<^verbatim>\<open>StringView::kInlineSize\<close> are not under src. They are the fields of \<open>DecimalStrings\<close>:
  \<open>castToString\<close> maps the unscaled value, the scale and the maximal size to the
  characters it writes, whose number it returns as \<^verbatim>\<open>actualSize\<close>.
\<close>

record DecimalStrings =
  castToString :: "int \<Rightarrow> nat \<Rightarrow> nat \<Rightarrow> string"
  maxStringViewSize :: "nat \<Rightarrow> nat \<Rightarrow> nat"
  kInlineSize :: nat

definition isInline :: "DecimalStrings \<Rightarrow> nat \<Rightarrow> bool" where
  "isInline ds n = (n \<le> kInlineSize ds)"

text \<open>
  Modelled from the spec: the body of \<^verbatim>\<open>DecimalUtil::castToString\<close> is not under src; the
  spec says of the decimal to string cast that it is bounded by \<^verbatim>\<open>maxStringViewSize(p, s)\<close>.
  \<open>castToStringBounded\<close> states this bound for the rows of a batch.
\<close>

definition castToStringBounded ::
  "DecimalStrings \<Rightarrow> nat list \<Rightarrow> (nat \<Rightarrow> int) \<Rightarrow> nat \<Rightarrow> nat \<Rightarrow> bool" where
  "castToStringBounded ds rows simpleInput precision scale =
     list_all (\<lambda>row. length (castToString ds (simpleInput row) scale (maxStringViewSize ds precision scale))
                       \<le> maxStringViewSize ds precision scale) rows"

definition writeBuffer :: "nat \<Rightarrow> string \<Rightarrow> StringBuffer \<Rightarrow> StringBuffer" where
  "writeBuffer offset s buffer =
     buffer\<lparr>bufferBytes := (\<lambda>i. if offset \<le> i \<and> i < offset + length s then s ! (i - offset)
                                else bufferBytes buffer i)\<rparr>"

text \<open>The lambda of the inline branch: the characters go to the local array.\<close>

definition decimalToVarcharInlineRow ::
  "DecimalStrings \<Rightarrow> (nat \<Rightarrow> int) \<Rightarrow> nat \<Rightarrow> nat \<Rightarrow> nat \<Rightarrow> StringVector \<times> EvalCtx
     \<Rightarrow> VeloxException + StringVector \<times> EvalCtx" where
  "decimalToVarcharInlineRow ds simpleInput scale rowSize row st =
     (case st of (flatResult, context) \<Rightarrow>
        (let inlined = castToString ds (simpleInput row) scale rowSize;
             actualSize = length inlined
         in Inr (setRaw flatResult row
                   (if isInline ds actualSize then Inlined inlined else InLocalArray actualSize),
                 context)))"

text \<open>The lambda of the buffer branch: the characters go to the buffer at \<^verbatim>\<open>rawBuffer\<close>.\<close>

definition decimalToVarcharBufferRow ::
  "DecimalStrings \<Rightarrow> (nat \<Rightarrow> int) \<Rightarrow> nat \<Rightarrow> nat \<Rightarrow> nat \<Rightarrow> StringVector \<times> EvalCtx
     \<Rightarrow> VeloxException + StringVector \<times> EvalCtx" where
  "decimalToVarcharBufferRow ds simpleInput scale rowSize row st =
     (case st of (flatResult, context) \<Rightarrow>
        (let chars = castToString ds (simpleInput row) scale rowSize;
             actualSize = length chars;
             flatResult = flatResult\<lparr>stringBuffer := writeBuffer (rawBuffer flatResult) chars (stringBuffer flatResult),
                                     written := (rawBuffer flatResult, actualSize) # written flatResult\<rparr>;
             flatResult = setRaw flatResult row
                            (if isInline ds actualSize then Inlined chars
                             else InBuffer (rawBuffer flatResult) actualSize)
         in Inr (if \<not> isInline ds actualSize
                 then flatResult\<lparr>rawBuffer := rawBuffer flatResult + actualSize\<rparr>
                 else flatResult,
                 context)))"

text \<open>
  \<^verbatim>\<open>applyDecimalToVarcharCast\<close>. \<open>initial\<close> is the vector from \<^verbatim>\<open>ensureWritable\<close> with
  the buffer that \<^verbatim>\<open>getBufferWithSpace(rows.countSelected() * rowSize)\<close> returns; the local
  \<^verbatim>\<open>rawBuffer\<close> starts at \<^verbatim>\<open>buffer->size()\<close> and \<^verbatim>\<open>buffer->setSize\<close> records where it
  ends.
\<close>

definition applyDecimalToVarcharCast ::
  "DecimalStrings \<Rightarrow> bool \<Rightarrow> nat list \<Rightarrow> (nat \<Rightarrow> int) \<Rightarrow> EvalCtx \<Rightarrow> nat \<Rightarrow> nat \<Rightarrow> StringVector
     \<Rightarrow> VeloxException + StringVector \<times> EvalCtx" where
  "applyDecimalToVarcharCast ds setNullInResultAtError rows simpleInput context precision scale initial =
     (let result = clearNulls rows initial;
          rowSize = maxStringViewSize ds precision scale
      in if isInline ds rowSize
         then applyToSelectedNoThrowLocal setNullInResultAtError
                (decimalToVarcharInlineRow ds simpleInput scale rowSize) rows (result, context)
         else (case applyToSelectedNoThrowLocal setNullInResultAtError
                      (decimalToVarcharBufferRow ds simpleInput scale rowSize) rows
                      (result\<lparr>rawBuffer := bufferSize (stringBuffer result)\<rparr>, context) of
                 Inl e \<Rightarrow> Inl e
               | Inr (flatResult, context') \<Rightarrow>
                   Inr (flatResult\<lparr>stringBuffer := (stringBuffer flatResult)\<lparr>bufferSize := rawBuffer flatResult\<rparr>\<rparr>,
                        context')))"

text \<open>
  The number of buffer bytes that the results too long to be inlined take, for a list
  of rows.
\<close>

definition nonInlineBytes :: "DecimalStrings \<Rightarrow> (nat \<Rightarrow> int) \<Rightarrow> nat \<Rightarrow> nat \<Rightarrow> nat list \<Rightarrow> nat" where
  "nonInlineBytes ds simpleInput scale rowSize rows =
     sum_list (map (\<lambda>row. length (castToString ds (simpleInput row) scale rowSize))
                 (filter (\<lambda>row. \<not> isInline ds (length (castToString ds (simpleInput row) scale rowSize)))
                    rows))"

text \<open>
  Example inputs for the closed theorems: three DECIMAL(18, 2) values with their
  strings, a bound of precision plus two characters and an inline size of twelve.
\<close>

definition exampleDecimalStrings :: DecimalStrings where
  "exampleDecimalStrings =
     \<lparr>castToString = (\<lambda>v scale maxSize.
          if v = 12345 then ''123.45''
          else if v = - 1234567890123456 then ''-12345678901234.56''
          else ''0.00''),
      maxStringViewSize = (\<lambda>precision scale. precision + 2),
      kInlineSize = 12\<rparr>"

definition emptyStringVector :: "nat \<Rightarrow> StringVector" where
  "emptyStringVector used =
     \<lparr>nulls = (\<lambda>row. False), rawValues = (\<lambda>row. Inlined []),
      stringBuffer = \<lparr>bufferBytes = (\<lambda>i. CHR ''?''), bufferSize = used\<rparr>,
      rawBuffer = 0, written = []\<rparr>"

definition exampleDecimals :: "nat \<Rightarrow> int" where
  "exampleDecimals row = (if row = 0 then 12345 else if row = 1 then - 1234567890123456 else 0)"

text \<open>
  The two lambdas as state transformers: neither of them throws, so the loop over the
  selected rows is a fold of these steps.
\<close>

definition inlineStep :: "DecimalStrings \<Rightarrow> (nat \<Rightarrow> int) \<Rightarrow> nat \<Rightarrow> nat \<Rightarrow> nat \<Rightarrow> StringVector \<times> EvalCtx
     \<Rightarrow> StringVector \<times> EvalCtx" where
  "inlineStep ds simpleInput scale rowSize row st =
     (setRaw (fst st) row
        (if isInline ds (length (castToString ds (simpleInput row) scale rowSize))
         then Inlined (castToString ds (simpleInput row) scale rowSize)
         else InLocalArray (length (castToString ds (simpleInput row) scale rowSize))), snd st)"

definition bufferStep :: "DecimalStrings \<Rightarrow> (nat \<Rightarrow> int) \<Rightarrow> nat \<Rightarrow> nat \<Rightarrow> nat \<Rightarrow> StringVector \<times> EvalCtx
     \<Rightarrow> StringVector \<times> EvalCtx" where
  "bufferStep ds simpleInput scale rowSize row st =
     (let chars = castToString ds (simpleInput row) scale rowSize; v = fst st
      in (v\<lparr>rawValues := (rawValues v)(row := (if isInline ds (length chars) then Inlined chars
                                                else InBuffer (rawBuffer v) (length chars))),
            stringBuffer := writeBuffer (rawBuffer v) chars (stringBuffer v),
            written := (rawBuffer v, length chars) # written v,
            rawBuffer := (if isInline ds (length chars) then rawBuffer v else rawBuffer v + length chars)\<rparr>,
          snd st))"

section \<open>Expression compiler: data model (ExprCompiler.cpp)\<close>

text \<open>
  Logical types. Modelled from the spec: \<^verbatim>\<open>Type\<close> and \<^verbatim>\<open>Type::equivalent\<close> are not under
  src; the spec gives the kinds, the parameters of DECIMAL, ROW and FUNCTION, and says
  that type equivalence is structural.
\<close>

datatype Type =
  ScalarType TypeKind
  | DecimalType nat nat
  | ArrayType Type
  | MapType Type Type
  | RowType "(string \<times> Type) list"
  | FunctionType "Type list" Type

definition equivalent :: "Type \<Rightarrow> Type \<Rightarrow> bool" where
  "equivalent a b = (a = b)"

text \<open>The value of a constant: a one-row constant vector.\<close>

datatype Variant = NullVariant | BoolVariant bool | IntVariant int | StringVariant string

text \<open>
  The typed-expression tree (\<^verbatim>\<open>core::ITypedExpr\<close> and its eight kinds; the classes are
  not under src, the spec lists them). Every kind but the lambda carries its list of
  inputs; a lambda carries its signature and its body and has no inputs.
\<close>

datatype ITypedExpr =
  ConstantTypedExpr Type Variant
  | InputTypedExpr Type
  | FieldAccessTypedExpr Type string "ITypedExpr list"
  | DereferenceTypedExpr Type nat "ITypedExpr list"
  | CallTypedExpr Type string "ITypedExpr list"
  | CastTypedExpr Type "ITypedExpr list" bool
  | ConcatTypedExpr Type "ITypedExpr list"
  | LambdaTypedExpr "(string \<times> Type) list" ITypedExpr

fun typeOf :: "ITypedExpr \<Rightarrow> Type" where
  "typeOf (ConstantTypedExpr t v) = t"
| "typeOf (InputTypedExpr t) = t"
| "typeOf (FieldAccessTypedExpr t name ins) = t"
| "typeOf (DereferenceTypedExpr t index ins) = t"
| "typeOf (CallTypedExpr t name ins) = t"
| "typeOf (CastTypedExpr t ins isTryCast) = t"
| "typeOf (ConcatTypedExpr t ins) = t"
| "typeOf (LambdaTypedExpr signature body) = FunctionType (map snd signature) (typeOf body)"

fun inputsOf :: "ITypedExpr \<Rightarrow> ITypedExpr list" where
  "inputsOf (ConstantTypedExpr t v) = []"
| "inputsOf (InputTypedExpr t) = []"
| "inputsOf (FieldAccessTypedExpr t name ins) = ins"
| "inputsOf (DereferenceTypedExpr t index ins) = ins"
| "inputsOf (CallTypedExpr t name ins) = ins"
| "inputsOf (CastTypedExpr t ins isTryCast) = ins"
| "inputsOf (ConcatTypedExpr t ins) = ins"
| "inputsOf (LambdaTypedExpr signature body) = []"

fun isInputKind :: "ITypedExpr \<Rightarrow> bool" where
  "isInputKind (InputTypedExpr t) = True"
| "isInputKind e = False"

fun isFieldAccessKind :: "ITypedExpr \<Rightarrow> bool" where
  "isFieldAccessKind (FieldAccessTypedExpr t name ins) = True"
| "isFieldAccessKind e = False"

text \<open>
  \<^verbatim>\<open>FieldAccessTypedExpr::isInputColumn\<close>: the access has no input or its input is the
  input row itself, so that the name is a column or a lambda argument and not a field of
  a struct.
\<close>

definition isInputColumn :: "ITypedExpr list \<Rightarrow> bool" where
  "isInputColumn ins = (case ins of [] \<Rightarrow> True | first # rest \<Rightarrow> isInputKind first)"

text \<open>
  The compiled graph lives in a heap of nodes: an \<^verbatim>\<open>ExprPtr\<close> is an address, so that
  two uses of one compiled node are the same address and a change of the node is seen
  through both. Address 0 is never allocated.
\<close>

type_synonym ExprPtr = nat

datatype FieldId = FieldName string | FieldIndex nat

datatype ExprNode =
  ConstantExpr Variant
  | FieldReference FieldId
  | LambdaExpr "(string \<times> Type) list" "ExprPtr list" ExprPtr
  | SpecialForm string
  | FunctionExpr string

text \<open>
  A node with its metadata. \<open>vectorFunctionDeterministic\<close> is the \<^verbatim>\<open>deterministic\<close> flag
  of the metadata of the vector function, true for a node without a vector function.
  The CPU-tracking flag of the constructors plays no part here and is left out.
\<close>

record Expr =
  node :: ExprNode
  exprType :: Type
  inputs :: "ExprPtr list"
  vectorFunctionDeterministic :: bool
  metaDataComputed :: bool
  isDeterministic :: bool
  isConstantExpr :: bool
  isMultiplyReferenced :: bool
  defaultNullRowsSkipped :: bool

type_synonym Heap = "ExprPtr \<Rightarrow> Expr"

definition makeExpr :: "ExprNode \<Rightarrow> Type \<Rightarrow> ExprPtr list \<Rightarrow> bool \<Rightarrow> Expr" where
  "makeExpr n t ins det =
     \<lparr>node = n, exprType = t, inputs = ins, vectorFunctionDeterministic = det,
      metaDataComputed = False, isDeterministic = False, isConstantExpr = False,
      isMultiplyReferenced = False, defaultNullRowsSkipped = False\<rparr>"

text \<open>\<^verbatim>\<open>Expr::isConstant()\<close>: the node is a \<^verbatim>\<open>ConstantExpr\<close>.\<close>

fun isConstant :: "Expr \<Rightarrow> bool" where
  "isConstant e = (case node e of ConstantExpr v \<Rightarrow> True | _ \<Rightarrow> False)"

fun constantValue :: "Expr \<Rightarrow> Variant option" where
  "constantValue e = (case node e of ConstantExpr v \<Rightarrow> Some v | _ \<Rightarrow> None)"

fun field :: "Expr \<Rightarrow> string" where
  "field e = (case node e of FieldReference (FieldName name) \<Rightarrow> name | _ \<Rightarrow> [])"

text \<open>
  Modelled from the spec: \<^verbatim>\<open>Expr::computeMetadata\<close>, \<^verbatim>\<open>Expr::clearMetaData\<close> and
  \<^verbatim>\<open>Expr::setMultiplyReferenced\<close> are not under src. The spec says that metadata is
  computed once after construction and recomputed when \<^verbatim>\<open>isMultiplyReferenced\<close> goes from
  false to true, and that a node is constant-foldable when it is deterministic and all of
  its inputs are constants. The metadata of a node is computed from that of its inputs,
  which is computed first where it is missing (a constant made by folding is entered in
  the graph without it; every other compiled node has it).
\<close>

definition computeOwnMetadata :: "Heap \<Rightarrow> ExprPtr \<Rightarrow> Heap" where
  "computeOwnMetadata h p =
     (if metaDataComputed (h p) then h
      else (let det = (vectorFunctionDeterministic (h p) \<and> list_all (\<lambda>i. isDeterministic (h i)) (inputs (h p)))
            in h(p := (h p)\<lparr>metaDataComputed := True,
                            isDeterministic := det,
                            isConstantExpr := (det \<and> list_all (\<lambda>i. isConstant (h i)) (inputs (h p)))\<rparr>)))"

definition computeMetadata :: "Heap \<Rightarrow> ExprPtr \<Rightarrow> Heap" where
  "computeMetadata h p =
     (if metaDataComputed (h p) then h
      else computeOwnMetadata (fold (\<lambda>input h'. computeOwnMetadata h' input) (inputs (h p)) h) p)"

definition clearMetaData :: "Heap \<Rightarrow> ExprPtr \<Rightarrow> Heap" where
  "clearMetaData h p =
     h(p := (h p)\<lparr>metaDataComputed := False, isDeterministic := False, isConstantExpr := False\<rparr>)"

definition setMultiplyReferenced :: "Heap \<Rightarrow> ExprPtr \<Rightarrow> Heap" where
  "setMultiplyReferenced h p = h(p := (h p)\<lparr>isMultiplyReferenced := True\<rparr>)"

text \<open>
  The \<^verbatim>\<open>ExprSet\<close> that owns the compilation: whether it has an execution context, the
  nodes registered for the per-batch reset, and its evaluation state (the nodes that an
  evaluation memoized). Modelled from the spec: \<^verbatim>\<open>ExprSet::addToReset\<close> and
  \<^verbatim>\<open>ExprSet::clear\<close> are not under src; the spec says that the first registers a node for
  the per-batch reset and that the second clears the evaluation state.
\<close>

record ExprSet =
  execCtx :: bool
  toReset :: "ExprPtr list"
  memoizingExprs :: "ExprPtr list"

definition addToReset :: "ExprSet \<Rightarrow> ExprPtr \<Rightarrow> ExprSet" where
  "addToReset es p = es\<lparr>toReset := toReset es @ [p]\<rparr>"

definition clear :: "ExprSet \<Rightarrow> ExprSet" where
  "clear es = es\<lparr>memoizingExprs := []\<rparr>"

text \<open>
  \<^verbatim>\<open>struct Scope\<close>. The parent pointer is the position in the stack of scopes of the
  compile state, and the \<^verbatim>\<open>ExprSet\<close> of all scopes is the one of the compile state.
\<close>

record Scope =
  locals :: "string list"
  capture :: "string list"
  captureReferences :: "ExprPtr list"
  captureFieldAccesses :: "ITypedExpr list"
  visited :: "ITypedExpr \<Rightarrow> ExprPtr option"
  rewrittenExpressions :: "ITypedExpr list"

definition newScope :: "string list \<Rightarrow> Scope" where
  "newScope names =
     \<lparr>locals = names, capture = [], captureReferences = [], captureFieldAccesses = [],
      visited = (\<lambda>e. None), rewrittenExpressions = []\<rparr>"

definition addCapture :: "string \<Rightarrow> ExprPtr \<Rightarrow> ITypedExpr \<Rightarrow> Scope \<Rightarrow> Scope" where
  "addCapture name reference fieldAccess sc =
     sc\<lparr>capture := capture sc @ [name],
        captureReferences := captureReferences sc @ [reference],
        captureFieldAccesses := captureFieldAccesses sc @ [fieldAccess]\<rparr>"

text \<open>
  The compile state: the heap of compiled nodes with the next free address, the
  \<^verbatim>\<open>ExprSet\<close>, the current scope and its enclosing scopes, nearest first; the last of them
  is the top-level scope, the one scope without a parent.
\<close>

record CompileState =
  heap :: Heap
  nextPtr :: ExprPtr
  exprSet :: ExprSet
  scope :: Scope
  parents :: "Scope list"

definition allocate :: "Expr \<Rightarrow> CompileState \<Rightarrow> ExprPtr \<times> CompileState" where
  "allocate e s = (nextPtr s, s\<lparr>heap := (heap s)(nextPtr s := e), nextPtr := Suc (nextPtr s)\<rparr>)"

text \<open>
  What the registries and the evaluator, none of them under src, give the compiler:
  the registered special forms, the vector functions and the simple functions with their
  metadata, the signatures for the error message, the registered rewrites, and the
  one-row evaluation of a compiled node. An evaluation returns a value or throws; it
  also reports the nodes for which it skipped default-null rows and the nodes it
  memoized in the \<^verbatim>\<open>ExprSet\<close>.
\<close>

record VectorFunctionMetadata =
  deterministic :: bool
  supportsFlattening :: bool

record EvalResult =
  outcome :: "VeloxException + Variant"
  skippedNullRows :: "ExprPtr list"
  memoized :: "ExprPtr list"

record Registry =
  isSpecialFormRegistered :: "string \<Rightarrow> bool"
  vectorFunctionWithMetadata :: "string \<Rightarrow> Type list \<Rightarrow> Variant option list \<Rightarrow> VectorFunctionMetadata option"
  simpleFunction :: "string \<Rightarrow> Type list \<Rightarrow> (Type \<times> VectorFunctionMetadata) option"
  vectorFunctionSignatures :: "string \<Rightarrow> string list option"
  simpleFunctionSignatures :: "string \<Rightarrow> string list"
  vectorFunctionFactories :: "string \<Rightarrow> VectorFunctionMetadata option"
  expressionRewrites :: "(ITypedExpr \<Rightarrow> ITypedExpr option) list"
  evalOneRow :: "Heap \<Rightarrow> ExprPtr \<Rightarrow> EvalResult"

text \<open>
  An exception that leaves the compiler, or the dereference of the null pointer that
  \<^verbatim>\<open>getSpecialForm\<close> returns for a name that is not registered.
\<close>

datatype CompileError = Thrown VeloxException | NullPointerDereference

section \<open>Expression compiler: flattening\<close>

definition kAnd :: string where "kAnd = ''and''"
definition kOr :: string where "kOr = ''or''"

definition allInputTypesEquivalent :: "ITypedExpr \<Rightarrow> bool" where
  "allInputTypesEquivalent expr =
     (case inputsOf expr of
        [] \<Rightarrow> True
      | first # rest \<Rightarrow> list_all (\<lambda>i. equivalent (typeOf first) (typeOf i)) rest)"

definition shouldFlatten :: "ITypedExpr \<Rightarrow> string set \<Rightarrow> string option" where
  "shouldFlatten expr flatteningCandidates =
     (case expr of
        CallTypedExpr t name ins \<Rightarrow>
          if name = kAnd \<or> name = kOr
             \<or> (name \<in> flatteningCandidates \<and> allInputTypesEquivalent expr)
          then Some name else None
      | _ \<Rightarrow> None)"

fun isCall :: "ITypedExpr \<Rightarrow> string \<Rightarrow> bool" where
  "isCall (CallTypedExpr t n ins) name = (n = name)"
| "isCall e name = False"

text \<open>
  \<^verbatim>\<open>flattenInput\<close>: the output vector \<^verbatim>\<open>flat\<close> is an accumulator; the loop over the inputs
  of a matching call is a fold.
\<close>

fun flattenInput :: "ITypedExpr \<Rightarrow> string \<Rightarrow> ITypedExpr list \<Rightarrow> ITypedExpr list" where
  "flattenInput (CallTypedExpr t n ins) flattenCall flat =
     (if n = flattenCall \<and> allInputTypesEquivalent (CallTypedExpr t n ins)
      then fold (\<lambda>child acc. flattenInput child flattenCall acc) ins flat
      else flat @ [CallTypedExpr t n ins])"
| "flattenInput input flattenCall flat = flat @ [input]"

text \<open>\<^verbatim>\<open>collectCallNames\<close> and \<^verbatim>\<open>collectFlatteningCandidates\<close>.\<close>

fun collectCallNames :: "ITypedExpr \<Rightarrow> string set" where
  "collectCallNames (CallTypedExpr t n ins) = insert n (\<Union> (set (map collectCallNames ins)))"
| "collectCallNames (ConstantTypedExpr t v) = {}"
| "collectCallNames (InputTypedExpr t) = {}"
| "collectCallNames (FieldAccessTypedExpr t name ins) = \<Union> (set (map collectCallNames ins))"
| "collectCallNames (DereferenceTypedExpr t index ins) = \<Union> (set (map collectCallNames ins))"
| "collectCallNames (CastTypedExpr t ins isTryCast) = \<Union> (set (map collectCallNames ins))"
| "collectCallNames (ConcatTypedExpr t ins) = \<Union> (set (map collectCallNames ins))"
| "collectCallNames (LambdaTypedExpr signature body) = {}"

definition collectFlatteningCandidates :: "Registry \<Rightarrow> ITypedExpr list \<Rightarrow> string set" where
  "collectFlatteningCandidates reg exprs =
     {name \<in> \<Union> (set (map collectCallNames exprs)).
        case vectorFunctionFactories reg name of
          Some metadata \<Rightarrow> supportsFlattening metadata
        | None \<Rightarrow> False}"

section \<open>Expression compiler: compilation\<close>

definition getAlreadyCompiled :: "ITypedExpr \<Rightarrow> (ITypedExpr \<Rightarrow> ExprPtr option) \<Rightarrow> ExprPtr option" where
  "getAlreadyCompiled expr visitedMap = visitedMap expr"

definition getTypes :: "Heap \<Rightarrow> ExprPtr list \<Rightarrow> Type list" where
  "getTypes h exprs = map (\<lambda>p. exprType (h p)) exprs"

definition getConstantInputs :: "Heap \<Rightarrow> ExprPtr list \<Rightarrow> Variant option list" where
  "getConstantInputs h exprs = map (\<lambda>p. if isConstant (h p) then constantValue (h p) else None) exprs"

text \<open>
  \<^verbatim>\<open>constructSpecialForm\<close> is not under src: the model builds a node that carries the name
  of the form, its type and its inputs.
\<close>

definition constructSpecialForm :: "string \<Rightarrow> Type \<Rightarrow> ExprPtr list \<Rightarrow> CompileState \<Rightarrow> ExprPtr \<times> CompileState" where
  "constructSpecialForm name t compiledChildren s = allocate (makeExpr (SpecialForm name) t compiledChildren True) s"

definition getSpecialForm ::
  "Registry \<Rightarrow> string \<Rightarrow> Type \<Rightarrow> ExprPtr list \<Rightarrow> CompileState \<Rightarrow> ExprPtr option \<times> CompileState" where
  "getSpecialForm reg name t compiledChildren s =
     (if isSpecialFormRegistered reg name
      then (case constructSpecialForm name t compiledChildren s of (p, s') \<Rightarrow> (Some p, s'))
      else (None, s))"

text \<open>
  \<^verbatim>\<open>captureFieldReference\<close>: the loop runs from the scope of the reference outwards while
  the scope has a parent, over the chain of the current scope and its enclosing scopes.
\<close>

fun captureChain :: "string \<Rightarrow> ExprPtr \<Rightarrow> ITypedExpr \<Rightarrow> Scope list \<Rightarrow> Scope list" where
  "captureChain name reference fieldAccess (sc # parent # rest) =
     (if name \<in> set (locals sc) \<or> name \<in> set (capture sc)
      then sc # parent # rest
      else addCapture name reference fieldAccess sc # captureChain name reference fieldAccess (parent # rest))"
| "captureChain name reference fieldAccess chain = chain"

definition captureFieldReference :: "ExprPtr \<Rightarrow> ITypedExpr \<Rightarrow> CompileState \<Rightarrow> CompileState" where
  "captureFieldReference reference fieldAccess s =
     (case captureChain (field (heap s reference)) reference fieldAccess (scope s # parents s) of
        sc # ps \<Rightarrow> s\<lparr>scope := sc, parents := ps\<rparr>
      | [] \<Rightarrow> s)"

text \<open>
  \<^verbatim>\<open>tryFoldIfConstant\<close>. The evaluation marks the nodes for which it skipped default-null
  rows and leaves its memoized nodes in the \<^verbatim>\<open>ExprSet\<close>, whether it returns or throws.
  Only a \<^verbatim>\<open>VeloxUserError\<close> is caught. An exception that leaves the function comes with
  the state at the throw, since the evaluation has changed the graph and the \<^verbatim>\<open>ExprSet\<close> in
  place.
\<close>

definition applyEvalEffects :: "EvalResult \<Rightarrow> CompileState \<Rightarrow> CompileState" where
  "applyEvalEffects r s =
     s\<lparr>heap := (\<lambda>p. if p \<in> set (skippedNullRows r) then (heap s p)\<lparr>defaultNullRowsSkipped := True\<rparr>
                     else heap s p),
       exprSet := (exprSet s)\<lparr>memoizingExprs := memoizingExprs (exprSet s) @ memoized r\<rparr>\<rparr>"

definition tryFoldIfConstant ::
  "Registry \<Rightarrow> ExprPtr \<Rightarrow> CompileState \<Rightarrow> CompileError \<times> CompileState + ExprPtr \<times> CompileState" where
  "tryFoldIfConstant reg expr s =
     (if isConstantExpr (heap s expr) \<and> execCtx (exprSet s)
      then (let r = evalOneRow reg (heap s) expr; s1 = applyEvalEffects r s
            in case outcome r of
                 Inr constantVector \<Rightarrow>
                   (let resultExpr = makeExpr (ConstantExpr constantVector) (exprType (heap s1 expr)) [] True;
                        resultExpr =
                          (if defaultNullRowsSkipped (heap s1 expr)
                              \<or> list_ex (\<lambda>input. defaultNullRowsSkipped (heap s1 input)) (inputs (heap s1 expr))
                           then resultExpr\<lparr>defaultNullRowsSkipped := True\<rparr>
                           else resultExpr)
                    in Inr (allocate resultExpr s1))
               | Inl (VeloxUserError m) \<Rightarrow> Inr (expr, s1)
               | Inl e \<Rightarrow> Inl (Thrown e, s1))
      else Inr (expr, s))"

text \<open>
  \<^verbatim>\<open>rewriteExpression\<close>: the first registered rewrite that fires gives the rewritten
  expression; \<open>None\<close> stands for the case where no rewrite fires and the function returns
  the expression it was given.
\<close>

fun rewriteExpression :: "(ITypedExpr \<Rightarrow> ITypedExpr option) list \<Rightarrow> ITypedExpr \<Rightarrow> ITypedExpr option" where
  "rewriteExpression [] expr = None"
| "rewriteExpression (rewrite # rewrites) expr =
     (case rewrite expr of Some rewritten \<Rightarrow> Some rewritten | None \<Rightarrow> rewriteExpression rewrites expr)"

text \<open>\<^verbatim>\<open>compileCall\<close>, with the two messages of the failure to resolve the function.\<close>

definition compileCall ::
  "Registry \<Rightarrow> Type \<Rightarrow> string \<Rightarrow> ExprPtr list \<Rightarrow> CompileState \<Rightarrow> CompileError + ExprPtr \<times> CompileState" where
  "compileCall reg resultType name ins s =
     (let inputTypes = getTypes (heap s) ins
      in if isSpecialFormRegistered reg name
         then Inr (constructSpecialForm name resultType ins s)
         else (case vectorFunctionWithMetadata reg name inputTypes (getConstantInputs (heap s) ins) of
                 Some metadata \<Rightarrow>
                   Inr (allocate (makeExpr (FunctionExpr name) resultType ins (deterministic metadata)) s)
               | None \<Rightarrow>
                   (case simpleFunction reg name inputTypes of
                      Some (entryType, metadata) \<Rightarrow>
                        if equivalent resultType entryType
                        then Inr (allocate (makeExpr (FunctionExpr name) resultType ins (deterministic metadata)) s)
                        else Inl (Thrown (VeloxUserError ''Found incompatible return types''))
                    | None \<Rightarrow>
                        (let signatures =
                               (case vectorFunctionSignatures reg name of Some sigs \<Rightarrow> sigs | None \<Rightarrow> [])
                                 @ simpleFunctionSignatures reg name
                         in if signatures = []
                            then Inl (Thrown (VeloxUserError ''Scalar function name not registered''))
                            else Inl (Thrown (VeloxUserError ''Scalar function not registered with arguments''))))))"

text \<open>
  \<^verbatim>\<open>compileCast\<close>. The result is the compiled input itself when the types are equal, and
  otherwise what \<^verbatim>\<open>getSpecialForm\<close> returns, which is the null pointer when the form is not
  registered.
\<close>

definition compileCast ::
  "Registry \<Rightarrow> Type \<Rightarrow> bool \<Rightarrow> ExprPtr list \<Rightarrow> CompileState \<Rightarrow> CompileError + ExprPtr option \<times> CompileState" where
  "compileCast reg resultType isTryCast ins s =
     (case ins of
        [input] \<Rightarrow>
          if resultType = exprType (heap s input) then Inr (Some input, s)
          else Inr (getSpecialForm reg (if isTryCast then ''try_cast'' else ''cast'') resultType ins s)
      | _ \<Rightarrow> Inl (Thrown (VeloxRuntimeError ''VELOX_CHECK_EQ(1, inputs.size())'')))"

definition kRowConstructor :: string where "kRowConstructor = ''row_constructor''"

text \<open>
  The branch of \<^verbatim>\<open>compileRewrittenExpression\<close> taken when the expression is already in
  the table of the scope.
\<close>

definition reuseCompiled :: "ExprPtr \<Rightarrow> CompileState \<Rightarrow> CompileState" where
  "reuseCompiled alreadyCompiled s =
     (if \<not> isMultiplyReferenced (heap s alreadyCompiled)
      then s\<lparr>exprSet := addToReset (exprSet s) alreadyCompiled,
             heap := computeMetadata
                       (clearMetaData (setMultiplyReferenced (heap s) alreadyCompiled) alreadyCompiled)
                       alreadyCompiled\<rparr>
      else s)"

text \<open>
  The end of \<^verbatim>\<open>compileRewrittenExpression\<close>, from \<^verbatim>\<open>result->computeMetadata()\<close> on: the
  folding attempt with the clearing of the \<^verbatim>\<open>ExprSet\<close>, and the entry in the table of the
  scope. An exception of the folding attempt leaves the function at once, with the state
  at the throw: \<^verbatim>\<open>exprSet->clear()\<close> is not reached.
\<close>

definition finishCompile ::
  "Registry \<Rightarrow> bool \<Rightarrow> ITypedExpr \<Rightarrow> ExprPtr option \<Rightarrow> CompileState
     \<Rightarrow> CompileError \<times> CompileState + ExprPtr \<times> CompileState" where
  "finishCompile reg enableConstantFolding expr resultPtr s =
     (case resultPtr of
        None \<Rightarrow> Inl (NullPointerDereference, s)
      | Some result \<Rightarrow>
          (let s1 = s\<lparr>heap := computeMetadata (heap s) result\<rparr>
           in case (if enableConstantFolding \<and> \<not> isConstant (heap s1 result)
                    then (case tryFoldIfConstant reg result s1 of
                            Inl e \<Rightarrow> Inl e
                          | Inr (compiled, s2) \<Rightarrow> Inr (compiled, s2\<lparr>exprSet := clear (exprSet s2)\<rparr>))
                    else Inr (result, s1)) of
                Inl e \<Rightarrow> Inl e
              | Inr (compiled, s3) \<Rightarrow>
                  Inr (compiled, s3\<lparr>scope := (scope s3)\<lparr>visited := (visited (scope s3))(expr := Some compiled)\<rparr>\<rparr>)))"

text \<open>
  The loop of \<^verbatim>\<open>compileLambda\<close> over the captures of the lambda scope: a capture is the
  node already compiled for its field access in the enclosing scope, or a new
  \<^verbatim>\<open>FieldReference\<close> entered in the table of that scope.
\<close>

fun captureReferencesOf :: "(ITypedExpr \<times> ExprPtr) list \<Rightarrow> CompileState \<Rightarrow> ExprPtr list \<times> CompileState" where
  "captureReferencesOf [] s = ([], s)"
| "captureReferencesOf ((expr, inner) # rest) s =
     (case getAlreadyCompiled expr (visited (scope s)) of
        Some reference \<Rightarrow>
          (case captureReferencesOf rest s of (refs, s') \<Rightarrow> (reference # refs, s'))
      | None \<Rightarrow>
          (case allocate (makeExpr (FieldReference (FieldName (field (heap s inner))))
                            (exprType (heap s inner)) [] True) s of
             (reference, s1) \<Rightarrow>
               (case captureReferencesOf rest
                       (s1\<lparr>scope := (scope s1)\<lparr>visited := (visited (scope s1))(expr := Some reference)\<rparr>\<rparr>) of
                  (refs, s') \<Rightarrow> (reference # refs, s'))))"

text \<open>
  The end of \<^verbatim>\<open>compileLambda\<close>, after the body is compiled in the lambda scope: the
  lambda scope ends, its enclosing scope is current again.
\<close>

definition finishLambda ::
  "(string \<times> Type) list \<Rightarrow> ExprPtr \<Rightarrow> CompileState \<Rightarrow> CompileError + ExprPtr option \<times> CompileState" where
  "finishLambda signature body s =
     (case parents s of
        [] \<Rightarrow> Inl (Thrown (VeloxRuntimeError ''lambda scope without an enclosing scope''))
      | enclosing # rest \<Rightarrow>
          (let lambdaScope = scope s;
               s1 = s\<lparr>scope := enclosing, parents := rest\<rparr>
           in case captureReferencesOf (zip (captureFieldAccesses lambdaScope) (captureReferences lambdaScope)) s1 of
                (refs, s2) \<Rightarrow>
                  (let functionType = FunctionType (map snd signature) (exprType (heap s2 body))
                   in case allocate (makeExpr (LambdaExpr signature refs body) functionType [] True) s2 of
                        (p, s3) \<Rightarrow> Inr (Some p, s3))))"

text \<open>
  \<^verbatim>\<open>compileExpression\<close>, \<^verbatim>\<open>compileRewrittenExpression\<close>, \<^verbatim>\<open>compileInputs\<close> with its inner
  loop over the flattened inputs, and \<^verbatim>\<open>compileLambda\<close>. A registered rewrite may return
  a larger expression, so the recursion carries a bound on its depth: \<open>None\<close> is the
  result of a compilation that did not end within the bound.
\<close>

function (sequential)
  compileExpression ::
    "nat \<Rightarrow> Registry \<Rightarrow> string set \<Rightarrow> bool \<Rightarrow> ITypedExpr \<Rightarrow> CompileState
       \<Rightarrow> (CompileError + ExprPtr \<times> CompileState) option"
  and compileRewrittenExpression ::
    "nat \<Rightarrow> Registry \<Rightarrow> string set \<Rightarrow> bool \<Rightarrow> ITypedExpr \<Rightarrow> CompileState
       \<Rightarrow> (CompileError + ExprPtr \<times> CompileState) option"
  and compileInputs ::
    "nat \<Rightarrow> Registry \<Rightarrow> string set \<Rightarrow> bool \<Rightarrow> ITypedExpr \<Rightarrow> string option \<Rightarrow> ITypedExpr list
       \<Rightarrow> CompileState \<Rightarrow> (CompileError + ExprPtr list \<times> CompileState) option"
  and compileFlat ::
    "nat \<Rightarrow> Registry \<Rightarrow> string set \<Rightarrow> bool \<Rightarrow> ITypedExpr list \<Rightarrow> CompileState
       \<Rightarrow> (CompileError + ExprPtr list \<times> CompileState) option"
  and compileLambda ::
    "nat \<Rightarrow> Registry \<Rightarrow> string set \<Rightarrow> bool \<Rightarrow> (string \<times> Type) list \<Rightarrow> ITypedExpr \<Rightarrow> CompileState
       \<Rightarrow> (CompileError + ExprPtr option \<times> CompileState) option"
where
  "compileExpression 0 reg flatteningCandidates enableConstantFolding expr s = None"
| "compileExpression (Suc n) reg flatteningCandidates enableConstantFolding expr s =
     (case rewriteExpression (expressionRewrites reg) expr of
        Some rewritten \<Rightarrow>
          compileRewrittenExpression n reg flatteningCandidates enableConstantFolding rewritten
            (s\<lparr>scope := (scope s)\<lparr>rewrittenExpressions := rewrittenExpressions (scope s) @ [rewritten]\<rparr>\<rparr>)
      | None \<Rightarrow>
          compileRewrittenExpression n reg flatteningCandidates enableConstantFolding expr s)"
| "compileRewrittenExpression n reg flatteningCandidates enableConstantFolding expr s =
     (case getAlreadyCompiled expr (visited (scope s)) of
        Some alreadyCompiled \<Rightarrow> Some (Inr (alreadyCompiled, reuseCompiled alreadyCompiled s))
      | None \<Rightarrow>
          (case compileInputs n reg flatteningCandidates enableConstantFolding expr
                  (shouldFlatten expr flatteningCandidates) (inputsOf expr) s of
             None \<Rightarrow> None
           | Some (Inl e) \<Rightarrow> Some (Inl e)
           | Some (Inr (compiledInputs, s1)) \<Rightarrow>
               (case (case expr of
                        ConcatTypedExpr t ins \<Rightarrow>
                          Some (Inr (getSpecialForm reg kRowConstructor t compiledInputs s1))
                      | CastTypedExpr t ins isTryCast \<Rightarrow>
                          Some (compileCast reg t isTryCast compiledInputs s1)
                      | CallTypedExpr t name ins \<Rightarrow>
                          (case compileCall reg t name compiledInputs s1 of
                             Inl e \<Rightarrow> Some (Inl e)
                           | Inr (p, s2) \<Rightarrow> Some (Inr (Some p, s2)))
                      | FieldAccessTypedExpr t name ins \<Rightarrow>
                          (case allocate (makeExpr (FieldReference (FieldName name)) t compiledInputs True) s1 of
                             (fieldReference, s2) \<Rightarrow>
                               Some (Inr (Some fieldReference,
                                          if isInputColumn ins
                                          then captureFieldReference fieldReference expr s2
                                          else s2)))
                      | DereferenceTypedExpr t index ins \<Rightarrow>
                          (case allocate (makeExpr (FieldReference (FieldIndex index)) t compiledInputs True) s1 of
                             (p, s2) \<Rightarrow> Some (Inr (Some p, s2)))
                      | InputTypedExpr t \<Rightarrow>
                          Some (Inl (Thrown (VeloxUserError ''InputTypedExpr is not supported'')))
                      | ConstantTypedExpr t v \<Rightarrow>
                          (case allocate (makeExpr (ConstantExpr v) t [] True) s1 of
                             (p, s2) \<Rightarrow> Some (Inr (Some p, s2)))
                      | LambdaTypedExpr signature body \<Rightarrow>
                          compileLambda n reg flatteningCandidates enableConstantFolding signature body s1) of
                  None \<Rightarrow> None
                | Some (Inl e) \<Rightarrow> Some (Inl e)
                | Some (Inr (result, s2)) \<Rightarrow>
                    (case finishCompile reg enableConstantFolding expr result s2 of
                       Inl (e, thrownAt) \<Rightarrow> Some (Inl e)
                     | Inr compiled \<Rightarrow> Some (Inr compiled)))))"
| "compileInputs n reg flatteningCandidates enableConstantFolding expr flattenIf [] s = Some (Inr ([], s))"
| "compileInputs n reg flatteningCandidates enableConstantFolding expr flattenIf (input # rest) s =
     (if isInputKind input
      then (if isFieldAccessKind expr
            then compileInputs n reg flatteningCandidates enableConstantFolding expr flattenIf rest s
            else Some (Inl (Thrown (VeloxRuntimeError
                   ''An InputReference can only occur under a FieldReference''))))
      else (case (case flattenIf of
                    Some flattenCall \<Rightarrow>
                      compileFlat n reg flatteningCandidates enableConstantFolding
                        (flattenInput input flattenCall []) s
                  | None \<Rightarrow>
                      (case compileExpression n reg flatteningCandidates enableConstantFolding input s of
                         None \<Rightarrow> None
                       | Some (Inl e) \<Rightarrow> Some (Inl e)
                       | Some (Inr (p, s1)) \<Rightarrow> Some (Inr ([p], s1)))) of
              None \<Rightarrow> None
            | Some (Inl e) \<Rightarrow> Some (Inl e)
            | Some (Inr (compiled, s1)) \<Rightarrow>
                (case compileInputs n reg flatteningCandidates enableConstantFolding expr flattenIf rest s1 of
                   None \<Rightarrow> None
                 | Some (Inl e) \<Rightarrow> Some (Inl e)
                 | Some (Inr (others, s2)) \<Rightarrow> Some (Inr (compiled @ others, s2)))))"
| "compileFlat n reg flatteningCandidates enableConstantFolding [] s = Some (Inr ([], s))"
| "compileFlat n reg flatteningCandidates enableConstantFolding (input # rest) s =
     (case compileExpression n reg flatteningCandidates enableConstantFolding input s of
        None \<Rightarrow> None
      | Some (Inl e) \<Rightarrow> Some (Inl e)
      | Some (Inr (p, s1)) \<Rightarrow>
          (case compileFlat n reg flatteningCandidates enableConstantFolding rest s1 of
             None \<Rightarrow> None
           | Some (Inl e) \<Rightarrow> Some (Inl e)
           | Some (Inr (others, s2)) \<Rightarrow> Some (Inr (p # others, s2))))"
| "compileLambda n reg flatteningCandidates enableConstantFolding signature body s =
     (case compileExpression n reg flatteningCandidates enableConstantFolding body
             (s\<lparr>scope := newScope (map fst signature), parents := scope s # parents s\<rparr>) of
        None \<Rightarrow> None
      | Some (Inl e) \<Rightarrow> Some (Inl e)
      | Some (Inr (compiledBody, s1)) \<Rightarrow> Some (finishLambda signature compiledBody s1))"
  by pat_completeness auto

termination
  by (relation "inv_image (less_than <*lex*> less_than <*lex*> less_than)
        (\<lambda>x. case x of
           Inl (Inl (n, reg, fc, ecf, expr, s)) \<Rightarrow> (n, 5, 0)
         | Inl (Inr (n, reg, fc, ecf, expr, s)) \<Rightarrow> (Suc n, 4, 0)
         | Inr (Inl (n, reg, fc, ecf, expr, flattenIf, ins, s)) \<Rightarrow> (Suc n, 3, length ins)
         | Inr (Inr (Inl (n, reg, fc, ecf, ins, s))) \<Rightarrow> (Suc n, 2, length ins)
         | Inr (Inr (Inr (n, reg, fc, ecf, signature, body, s))) \<Rightarrow> (Suc n, 1, 0))")
     auto

text \<open>\<^verbatim>\<open>compileExpressions\<close>: the sources are compiled in order in one top-level scope.\<close>

definition initialState :: "ExprSet \<Rightarrow> CompileState" where
  "initialState es =
     \<lparr>heap = (\<lambda>p. makeExpr (SpecialForm []) (ScalarType UNKNOWN) [] True), nextPtr = 1,
      exprSet = es, scope = newScope [], parents = []\<rparr>"

definition compileExpressions ::
  "nat \<Rightarrow> Registry \<Rightarrow> ITypedExpr list \<Rightarrow> ExprSet \<Rightarrow> bool
     \<Rightarrow> (CompileError + ExprPtr list \<times> CompileState) option" where
  "compileExpressions n reg sources es enableConstantFolding =
     compileFlat n reg (collectFlatteningCandidates reg sources) enableConstantFolding sources
       (initialState es)"

section \<open>Expression compiler: example inputs\<close>

text \<open>
  A small registry for the closed theorems: the special forms \<^verbatim>\<open>and\<close>, \<^verbatim>\<open>or\<close>, \<^verbatim>\<open>cast\<close>,
  \<^verbatim>\<open>try_cast\<close> and \<^verbatim>\<open>row_constructor\<close>; the deterministic vector functions \<^verbatim>\<open>plus\<close>,
  \<^verbatim>\<open>divide\<close> and \<^verbatim>\<open>concat\<close>, of which \<^verbatim>\<open>concat\<close> supports flattening; the
  non-deterministic \<^verbatim>\<open>rand\<close>; and \<^verbatim>\<open>fail\<close>, whose evaluation throws a runtime error. The
  evaluator adds and divides integer constants, throws a user error on a division by
  zero, and skips the rows of a null first argument.
\<close>

definition exampleEval :: "Heap \<Rightarrow> ExprPtr \<Rightarrow> EvalResult" where
  "exampleEval h p =
     (case node (h p) of
        FunctionExpr name \<Rightarrow>
          (case map (\<lambda>i. constantValue (h i)) (inputs (h p)) of
             [Some (IntVariant a), Some (IntVariant b)] \<Rightarrow>
               if name = ''plus''
               then \<lparr>outcome = Inr (IntVariant (a + b)), skippedNullRows = [], memoized = [p]\<rparr>
               else if name = ''divide'' \<and> b = 0
               then \<lparr>outcome = Inl (VeloxUserError ''division by zero''), skippedNullRows = [], memoized = [p]\<rparr>
               else if name = ''divide''
               then \<lparr>outcome = Inr (IntVariant (a div b)), skippedNullRows = [], memoized = [p]\<rparr>
               else \<lparr>outcome = Inl (VeloxRuntimeError ''evaluation failed''), skippedNullRows = [], memoized = [p]\<rparr>
           | [Some NullVariant, Some v] \<Rightarrow>
               \<lparr>outcome = Inr NullVariant, skippedNullRows = [p], memoized = []\<rparr>
           | _ \<Rightarrow> \<lparr>outcome = Inl (VeloxRuntimeError ''evaluation failed''), skippedNullRows = [], memoized = []\<rparr>)
      | _ \<Rightarrow> \<lparr>outcome = Inl (VeloxUserError ''field not found''), skippedNullRows = [], memoized = []\<rparr>)"

definition exampleMetadata :: "string \<Rightarrow> VectorFunctionMetadata option" where
  "exampleMetadata name =
     (if name \<in> {''plus'', ''divide'', ''concat'', ''fail''}
      then Some \<lparr>deterministic = True, supportsFlattening = (name = ''concat'')\<rparr>
      else if name = ''rand'' then Some \<lparr>deterministic = False, supportsFlattening = False\<rparr>
      else None)"

definition exampleRegistry :: Registry where
  "exampleRegistry =
     \<lparr>isSpecialFormRegistered =
        (\<lambda>name. name \<in> {''and'', ''or'', ''cast'', ''try_cast'', ''row_constructor''}),
      vectorFunctionWithMetadata = (\<lambda>name types constants. exampleMetadata name),
      simpleFunction = (\<lambda>name types. None),
      vectorFunctionSignatures = (\<lambda>name. None),
      simpleFunctionSignatures = (\<lambda>name. []),
      vectorFunctionFactories = exampleMetadata,
      expressionRewrites = [],
      evalOneRow = exampleEval\<rparr>"

definition exampleExprSet :: "bool \<Rightarrow> ExprSet" where
  "exampleExprSet hasExecCtx = \<lparr>execCtx = hasExecCtx, toReset = [], memoizingExprs = []\<rparr>"

definition boolType :: Type where "boolType = ScalarType BOOLEAN"

definition bigintType :: Type where "bigintType = ScalarType BIGINT"

definition column :: "Type \<Rightarrow> string \<Rightarrow> ITypedExpr" where
  "column t name = FieldAccessTypedExpr t name []"

definition intConstant :: "int \<Rightarrow> ITypedExpr" where
  "intConstant i = ConstantTypedExpr bigintType (IntVariant i)"

definition andExample :: ITypedExpr where
  "andExample =
     CallTypedExpr boolType ''and''
       [column boolType ''a'',
        CallTypedExpr boolType ''and'' [column boolType ''b'', column boolType ''c'']]"

definition andOrExample :: ITypedExpr where
  "andOrExample =
     CallTypedExpr boolType ''and''
       [column boolType ''a'',
        CallTypedExpr boolType ''and''
          [column boolType ''b'',
           CallTypedExpr boolType ''or'' [column boolType ''c'', column boolType ''d'']]]"

section \<open>Expression compiler: the folding attempt\<close>

text \<open>
  Names for the stages of the folding attempt on a built node: the state once the
  metadata of the node is computed, the one-row evaluation that \<^verbatim>\<open>tryFoldIfConstant\<close>
  runs there, and the state that the evaluation leaves.
\<close>

definition withMetadata :: "CompileState \<Rightarrow> ExprPtr \<Rightarrow> CompileState" where
  "withMetadata s result = s\<lparr>heap := computeMetadata (heap s) result\<rparr>"

definition foldEvaluation :: "Registry \<Rightarrow> CompileState \<Rightarrow> ExprPtr \<Rightarrow> EvalResult" where
  "foldEvaluation reg s result = evalOneRow reg (heap (withMetadata s result)) result"

definition afterEvaluation :: "Registry \<Rightarrow> CompileState \<Rightarrow> ExprPtr \<Rightarrow> CompileState" where
  "afterEvaluation reg s result = applyEvalEffects (foldEvaluation reg s result) (withMetadata s result)"

text \<open>
  Example states: the nodes of a list at the addresses from 1 on, in a top-level scope.
\<close>

definition exampleState :: "Expr list \<Rightarrow> bool \<Rightarrow> CompileState" where
  "exampleState nodes hasExecCtx =
     \<lparr>heap = (\<lambda>p. if 0 < p \<and> p \<le> length nodes then nodes ! (p - 1)
                   else makeExpr (SpecialForm []) (ScalarType UNKNOWN) [] True),
      nextPtr = Suc (length nodes),
      exprSet = exampleExprSet hasExecCtx, scope = newScope [], parents = []\<rparr>"

definition callOnConstants :: "string \<Rightarrow> int \<Rightarrow> int \<Rightarrow> Expr list" where
  "callOnConstants name a b =
     [makeExpr (ConstantExpr (IntVariant a)) bigintType [] True,
      makeExpr (ConstantExpr (IntVariant b)) bigintType [] True,
      makeExpr (FunctionExpr name) bigintType [1, 2] True]"

definition callExample :: "string \<Rightarrow> int \<Rightarrow> int \<Rightarrow> ITypedExpr" where
  "callExample name a b = CallTypedExpr bigintType name [intConstant a, intConstant b]"



text \<open>
  The example of the source for a function that supports flattening:
  \<^verbatim>\<open>concat(array1, concat(array2, concat(array2, intVal)))\<close>.
\<close>

definition arrayType :: Type where "arrayType = ArrayType (ScalarType BIGINT)"

definition innerConcat :: ITypedExpr where
  "innerConcat = CallTypedExpr arrayType ''concat'' [column arrayType ''array2'', column bigintType ''intVal'']"

definition concatExample :: ITypedExpr where
  "concatExample =
     CallTypedExpr arrayType ''concat''
       [column arrayType ''array1'',
        CallTypedExpr arrayType ''concat'' [column arrayType ''array2'', innerConcat]]"

text \<open>The state that a successful compilation returns, for the examples that compile in sequence.\<close>

definition compiledState :: "(CompileError + ExprPtr \<times> CompileState) option \<Rightarrow> CompileState" where
  "compiledState r = (case r of Some (Inr (p, s)) \<Rightarrow> s | _ \<Rightarrow> initialState (exampleExprSet False))"

text \<open>
  Examples for the captures: \<^verbatim>\<open>k -> (v -> plus(v, x))\<close>, whose inner body references the
  column \<^verbatim>\<open>x\<close> of the top-level scope; a state inside two lambdas, \<^verbatim>\<open>v\<close> within \<^verbatim>\<open>k\<close>, where
  the outer lambda has already captured \<^verbatim>\<open>y\<close> and \<^verbatim>\<open>x\<close>; and the body \<^verbatim>\<open>plus(k, 1)\<close>,
  which references the formal parameter only.
\<close>

definition nestedLambda :: ITypedExpr where
  "nestedLambda =
     LambdaTypedExpr [(''k'', bigintType)]
       (LambdaTypedExpr [(''v'', bigintType)]
          (CallTypedExpr bigintType ''plus'' [column bigintType ''v'', column bigintType ''x'']))"

definition nestedExampleState :: CompileState where
  "nestedExampleState =
     (exampleState [makeExpr (FieldReference (FieldName ''x'')) bigintType [] True,
                    makeExpr (FieldReference (FieldName ''y'')) bigintType [] True] False)
       \<lparr>scope := newScope [''v''],
        parents := [addCapture ''x'' 1 (column bigintType ''x'')
                      (addCapture ''y'' 2 (column bigintType ''y'') (newScope [''k''])),
                    newScope []]\<rparr>"

definition incrementLambdaBody :: ITypedExpr where
  "incrementLambdaBody = CallTypedExpr bigintType ''plus'' [column bigintType ''k'', intConstant 1]"

text \<open>The body of \<^verbatim>\<open>nestedLambda\<close>: the lambda \<^verbatim>\<open>v -> plus(v, x)\<close>.\<close>

definition innerLambda :: ITypedExpr where
  "innerLambda =
     LambdaTypedExpr [(''v'', bigintType)]
       (CallTypedExpr bigintType ''plus'' [column bigintType ''v'', column bigintType ''x''])"

section \<open>Expression compiler: what a compilation preserves\<close>

text \<open>
  The chain of scopes of a state, from the current scope to the top-level scope.
\<close>

definition scopeChain :: "CompileState \<Rightarrow> Scope list" where
  "scopeChain s = scope s # parents s"

text \<open>
  A scope extends another when it has the same formal parameters and every entry of
  the table of the other.
\<close>

definition scopeExtends :: "Scope \<Rightarrow> Scope \<Rightarrow> bool" where
  "scopeExtends a b = (locals a = locals b \<and> (\<forall>e p. visited a e = Some p \<longrightarrow> visited b e = Some p))"

text \<open>Every node marked as multiply referenced is registered for the per-batch reset.\<close>

definition resetRegistered :: "CompileState \<Rightarrow> bool" where
  "resetRegistered s = (\<forall>q. isMultiplyReferenced (heap s q) \<longrightarrow> q \<in> set (toReset (exprSet s)))"

text \<open>
  The capture lists of a chain are closed: a name captured by a lambda scope is a formal
  parameter or a capture of the next scope out, unless that scope is the top-level scope.
\<close>

fun capturesClosed :: "Scope list \<Rightarrow> bool" where
  "capturesClosed (sc # parent # grandparent # rest) =
     ((\<forall>name \<in> set (capture sc). name \<in> set (locals parent) \<or> name \<in> set (capture parent))
      \<and> capturesClosed (parent # grandparent # rest))"
| "capturesClosed scopes = True"

definition extends :: "CompileState \<Rightarrow> CompileState \<Rightarrow> bool" where
  "extends s s' =
     (list_all2 scopeExtends (scopeChain s) (scopeChain s')
      \<and> (resetRegistered s \<longrightarrow> resetRegistered s')
      \<and> (capturesClosed (scopeChain s) \<longrightarrow> capturesClosed (scopeChain s')))"

text \<open>
  The expression that \<^verbatim>\<open>compileExpression\<close> looks up in the table of the scope: what
  \<^verbatim>\<open>rewriteExpression\<close> returns, which is the expression itself when no rewrite fires.
\<close>

definition afterRewrite :: "Registry \<Rightarrow> ITypedExpr \<Rightarrow> ITypedExpr" where
  "afterRewrite reg expr =
     (case rewriteExpression (expressionRewrites reg) expr of Some rewritten \<Rightarrow> rewritten | None \<Rightarrow> expr)"

text \<open>
  A state reached later in the current scope, with the enclosing expressions whose
  compilation has returned on the way. The steps are those that the compiler makes
  between two compilations in one scope: an expression is compiled; the compilation of
  an expression begins with a rewrite, which is entered in the scope; and the
  compilation of an enclosing expression, which began in the state \<open>before\<close> with the
  expression absent from the table, returns after its inputs are compiled.
\<close>

inductive compiledLater ::
  "Registry \<Rightarrow> string set \<Rightarrow> bool \<Rightarrow> CompileState \<Rightarrow> ITypedExpr list \<Rightarrow> CompileState \<Rightarrow> bool"
  for reg :: Registry and flatteningCandidates :: "string set" and enableConstantFolding :: bool where
  compiledLaterSame: "compiledLater reg flatteningCandidates enableConstantFolding s [] s"
| compiledLaterStep: "compiledLater reg flatteningCandidates enableConstantFolding s enclosing t
     \<Longrightarrow> compileExpression n reg flatteningCandidates enableConstantFolding expr t = Some (Inr (p, u))
     \<Longrightarrow> compiledLater reg flatteningCandidates enableConstantFolding s enclosing u"
| compiledLaterEnter: "compiledLater reg flatteningCandidates enableConstantFolding s enclosing t
     \<Longrightarrow> rewriteExpression (expressionRewrites reg) expr = Some rewritten
     \<Longrightarrow> compiledLater reg flatteningCandidates enableConstantFolding s enclosing
           (t\<lparr>scope := (scope t)\<lparr>rewrittenExpressions := rewrittenExpressions (scope t) @ [rewritten]\<rparr>\<rparr>)"
| compiledLaterReturn: "compiledLater reg flatteningCandidates enableConstantFolding s enclosing t
     \<Longrightarrow> getAlreadyCompiled expr (visited (scope before)) = None
     \<Longrightarrow> compileInputs n reg flatteningCandidates enableConstantFolding expr
           (shouldFlatten expr flatteningCandidates) (inputsOf expr) before = Some (Inr (compiledInputs, t))
     \<Longrightarrow> compileRewrittenExpression n reg flatteningCandidates enableConstantFolding expr before
           = Some (Inr (p, u))
     \<Longrightarrow> compiledLater reg flatteningCandidates enableConstantFolding s (expr # enclosing) u"

text \<open>
  The names that an expression references as input columns and that no lambda inside
  the expression binds.
\<close>

fun freeReferences :: "ITypedExpr \<Rightarrow> string set" where
  "freeReferences (ConstantTypedExpr t v) = {}"
| "freeReferences (InputTypedExpr t) = {}"
| "freeReferences (FieldAccessTypedExpr t name ins) =
     (if isInputColumn ins then {name} else {}) \<union> \<Union> (set (map freeReferences ins))"
| "freeReferences (DereferenceTypedExpr t index ins) = \<Union> (set (map freeReferences ins))"
| "freeReferences (CallTypedExpr t name ins) = \<Union> (set (map freeReferences ins))"
| "freeReferences (CastTypedExpr t ins isTryCast) = \<Union> (set (map freeReferences ins))"
| "freeReferences (ConcatTypedExpr t ins) = \<Union> (set (map freeReferences ins))"
| "freeReferences (LambdaTypedExpr signature body) = freeReferences body - set (map fst signature)"

text \<open>No registered rewrite brings a reference into an expression.\<close>

definition rewritesKeepReferences :: "Registry \<Rightarrow> bool" where
  "rewritesKeepReferences reg =
     (\<forall>expr rewritten. rewriteExpression (expressionRewrites reg) expr = Some rewritten
        \<longrightarrow> freeReferences rewritten \<subseteq> freeReferences expr)"

text \<open>
  The formal parameters of the scopes of a chain up to a position, and the position of
  the scope in which a name resolves: the first scope that has it as a formal parameter,
  or else the top-level scope.
\<close>

definition boundNames :: "nat \<Rightarrow> Scope list \<Rightarrow> string set" where
  "boundNames k scopes = \<Union> (set (map (\<lambda>sc. set (locals sc)) (take (Suc k) scopes)))"

definition definingScope :: "string \<Rightarrow> Scope list \<Rightarrow> nat" where
  "definingScope name scopes = length (takeWhile (\<lambda>sc. name \<notin> set (locals sc)) (butlast scopes))"

definition captureLists :: "Scope \<Rightarrow> string list \<times> ExprPtr list \<times> ITypedExpr list" where
  "captureLists sc = (capture sc, captureReferences sc, captureFieldAccesses sc)"

text \<open>
  A compilation keeps the capture lists of the scopes from a position of the chain on.
\<close>

definition capturesKept :: "nat \<Rightarrow> CompileState \<Rightarrow> CompileState \<Rightarrow> bool" where
  "capturesKept k s s' =
     (map captureLists (drop k (scopeChain s')) = map captureLists (drop k (scopeChain s)))"

text \<open>
  Capture discovery as the specification words it, for a reference to the name \<open>x\<close> met
  in the current scope: the defining scope of \<open>x\<close> and the scopes outside it are unchanged;
  every scope inside it gets \<open>x\<close>, with the reference and the field access, at the end of
  its capture lists unless it has captured \<open>x\<close> already.
\<close>

definition captureDiscovery :: "string \<Rightarrow> ExprPtr \<Rightarrow> ITypedExpr \<Rightarrow> Scope list \<Rightarrow> Scope list" where
  "captureDiscovery x reference fieldAccess scopes =
     map (\<lambda>sc. if x \<in> set (capture sc) then sc else addCapture x reference fieldAccess sc)
       (take (definingScope x scopes) scopes)
     @ drop (definingScope x scopes) scopes"

text \<open>
  What holds of a lambda scope during a compilation: a column reference in its table of
  compiled expressions names a formal parameter or a capture of the scope, the field
  accesses kept beside the captures name captures, and the three capture lists have one
  length. \<^verbatim>\<open>wellScoped\<close> is that for every lambda scope of a chain (the last scope of the
  chain, the top-level one, has no captures), with closed capture lists.
\<close>

definition scopeCaptured :: "Scope \<Rightarrow> bool" where
  "scopeCaptured sc =
     ((\<forall>t x ins p. visited sc (FieldAccessTypedExpr t x ins) = Some p \<and> isInputColumn ins
          \<longrightarrow> x \<in> set (locals sc) \<or> x \<in> set (capture sc))
      \<and> (\<forall>t x ins. FieldAccessTypedExpr t x ins \<in> set (captureFieldAccesses sc) \<longrightarrow> x \<in> set (capture sc))
      \<and> length (captureReferences sc) = length (capture sc)
      \<and> length (captureFieldAccesses sc) = length (capture sc))"

fun wellCaptured :: "Scope list \<Rightarrow> bool" where
  "wellCaptured (sc # parent # rest) = (scopeCaptured sc \<and> wellCaptured (parent # rest))"
| "wellCaptured scopes = True"

definition wellScoped :: "Scope list \<Rightarrow> bool" where
  "wellScoped scopes = (capturesClosed scopes \<and> wellCaptured scopes)"

section \<open>Decimal to integral cast: proofs\<close>

lemma applyToSelected_rowLocal:
  assumes loc: "\<And>row st. \<exists>st'. func row st = Inr st'
                 \<and> (\<forall>r. r \<noteq> row \<longrightarrow> cellOf st' r = cellOf st r)
                 \<and> cellOf st' row = h row (cellOf st row)"
    and d: "distinct rows"
  shows "\<exists>st'. applyToSelectedNoThrowLocal b func rows st = Inr st'
           \<and> (\<forall>r. cellOf st' r = (if r \<in> set rows then h r (cellOf st r) else cellOf st r))"
  using d
proof (induction rows arbitrary: st)
  case Nil
  then show ?case by simp
next
  case (Cons row rows)
  obtain st1 where s1: "func row st = Inr st1"
    and o1: "\<forall>r. r \<noteq> row \<longrightarrow> cellOf st1 r = cellOf st r"
    and r1: "cellOf st1 row = h row (cellOf st row)"
    using loc[of row st] by blast
  from Cons.prems have d': "distinct rows" and nin: "row \<notin> set rows" by auto
  obtain st2 where s2: "applyToSelectedNoThrowLocal b func rows st1 = Inr st2"
    and c2: "\<forall>r. cellOf st2 r = (if r \<in> set rows then h r (cellOf st1 r) else cellOf st1 r)"
    using Cons.IH[OF d', of st1] by blast
  have "applyToSelectedNoThrowLocal b func (row # rows) st = Inr st2"
    using s1 s2 by (cases st) simp
  moreover have "\<forall>r. cellOf st2 r = (if r \<in> set (row # rows) then h r (cellOf st r) else cellOf st r)"
    using c2 o1 r1 nin by auto
  ultimately show ?case by blast
qed

lemma half_up_nat:
  fixes a sf :: int
  assumes "0 \<le> a" "0 < sf" "even sf \<or> sf = 1"
  shows "(2 * a + sf) div (2 * sf) = a div sf + (if sf \<noteq> 1 \<and> a mod sf \<ge> sf div 2 then 1 else 0)"
proof -
  define q where "q = a div sf"
  define r where "r = a mod sf"
  have a: "a = sf * q + r" by (simp add: q_def r_def)
  have r0: "0 \<le> r" and r1: "r < sf" using assms(2) by (simp_all add: r_def)
  have cond: "(sf \<noteq> 1 \<and> r \<ge> sf div 2) \<longleftrightarrow> 2 * r \<ge> sf"
    using assms(3) r0 r1 by (auto elim!: evenE)
  have split: "2 * a + sf = (2 * r + sf) + q * (2 * sf)" by (simp add: a algebra_simps)
  have "(2 * a + sf) div (2 * sf) = q + (2 * r + sf) div (2 * sf)"
    unfolding split using assms(2) by simp
  moreover have "(2 * r + sf) div (2 * sf) = (if 2 * r \<ge> sf then 1 else 0)"
  proof (cases "2 * r \<ge> sf")
    case True
    have "(2 * r + sf) div (2 * sf) = 1"
      by (rule int_div_pos_eq[where r = "2 * r - sf"]) (use True r1 in auto)
    then show ?thesis using True by simp
  next
    case False
    then have "(2 * r + sf) div (2 * sf) = 0"
      using r0 assms(2) by (simp add: div_pos_pos_trivial)
    then show ?thesis using False by simp
  qed
  ultimately show ?thesis using cond by (simp add: q_def r_def)
qed


lemma truncDiv_abs: "0 < sf \<Longrightarrow> truncDiv v sf = sgn v * (\<bar>v\<bar> div sf)"
  by (simp add: truncDiv_def)

lemma rounded_integralPart:
  assumes sf: "sf = 10 ^ scale"
  shows "truncDiv v sf
           + (if sf \<noteq> 1 \<and> (if v \<ge> 0 then 1 else -1) * truncMod v sf \<ge> sf div 2
              then (if v \<ge> 0 then 1 else -1) else 0)
         = roundHalfAwayFromZero v sf"
proof -
  have pos: "0 < sf" using sf by simp
  have ev: "even sf \<or> sf = 1" using sf by (cases scale) simp_all
  have frac: "(if v \<ge> 0 then 1 else -1) * truncMod v sf = \<bar>v\<bar> mod sf"
  proof (cases "v \<ge> 0")
    case True
    then show ?thesis using pos
      by (cases "v = 0") (simp_all add: truncMod_def truncDiv_def minus_div_mult_eq_mod)
  next
    case False
    then have "truncMod v sf = v + sf * (- v div sf)"
      using pos by (simp add: truncMod_def truncDiv_def algebra_simps)
    also have "\<dots> = - (- v mod sf)"
      using mult_div_mod_eq[of sf "- v"] by linarith
    finally have "truncMod v sf = - (\<bar>v\<bar> mod sf)"
      using False by simp
    then show ?thesis using False by simp
  qed
  have half: "sf \<noteq> 1 \<Longrightarrow> 0 < sf div 2"
    using pos by presburger
  show ?thesis
    unfolding frac roundHalfAwayFromZero_def half_up_nat[OF abs_ge_zero pos ev] truncDiv_abs[OF pos]
    using half by (cases "v \<ge> 0"; cases "v = 0") (auto simp: algebra_simps sgn_if)
qed


lemma staticCast_inRange:
  assumes "0 < bitWidth k" "inRange k x"
  shows "staticCast k x = x"
proof -
  obtain w where w: "bitWidth k = Suc w" using assms(1) by (cases "bitWidth k") auto
  have "0 \<le> x + 2 ^ w" "x + 2 ^ w < 2 ^ Suc w"
    using assms(2) by (simp_all add: inRange_def numericLimitsMin_def numericLimitsMax_def w)
  then have "(x + 2 ^ w) mod 2 ^ Suc w = x + 2 ^ w"
    by (rule mod_pos_pos_trivial)
  then show ?thesis by (simp add: staticCast_def w)
qed

lemma decimalToIntegralTruncateRow_local:
  "\<exists>st'. decimalToIntegralTruncateRow simpleInput scale toKind row st = Inr st'
     \<and> (\<forall>r. r \<noteq> row \<longrightarrow> cellOf st' r = cellOf st r)
     \<and> cellOf st' row =
         (\<lambda>r (n, v, e). (n, staticCast toKind (truncDiv (simpleInput r) (10 ^ scale)), e)) row (cellOf st row)"
  by (cases st) (simp add: decimalToIntegralTruncateRow_def cellOf_def setRaw_def kPowersOfTen_def)

lemma outOfBoundsError_message:
  "\<exists>msg. outOfBoundsError strs row = VeloxUserError msg \<and> suffix ''Out of bounds.'' msg"
proof -
  define p where "p = makeErrorMessage (inputTypeString strs) (inputToString strs row) (toTypeString strs)
      (makeErrorMessage (inputTypeString strs) (inputToString strs row) (toTypeString strs) [])"
  have "outOfBoundsError strs row = VeloxUserError (p @ ''Out of bounds.'')"
    by (simp add: outOfBoundsError_def makeBadCastException_def makeErrorMessage_def p_def)
  moreover have "suffix ''Out of bounds.'' (p @ ''Out of bounds.'')"
    by (rule suffixI) (rule refl)
  ultimately show ?thesis by blast
qed

lemma decimalToIntegralRow_local:
  "\<exists>st'. decimalToIntegralRow hooks b strs simpleInput scale toKind row st = Inr st'
     \<and> (\<forall>r. r \<noteq> row \<longrightarrow> cellOf st' r = cellOf st r)
     \<and> cellOf st' row =
         (\<lambda>r (n, v, e).
            if inRange toKind (integralPartOf hooks (simpleInput r) scale)
            then (n, staticCast toKind (integralPartOf hooks (simpleInput r) scale), e)
            else if b then (True, v, e) else (n, v, Some (ExceptionPtr (outOfBoundsError strs r))))
         row (cellOf st row)"
proof -
  obtain result ctx where st: "st = (result, ctx)" by (cases st)
  have ip: "(let scaleFactor = kPowersOfTen scale; value = simpleInput row;
                 integralPart = truncDiv value scaleFactor
             in (if getPolicy hooks \<noteq> SparkTryCastPolicy
                 then (let fractionPart = truncMod value scaleFactor;
                           sign = (if value \<ge> 0 then 1 else -1);
                           needsRoundUp = (scaleFactor \<noteq> 1 \<and> sign * fractionPart \<ge> scaleFactor div 2)
                       in integralPart + (if needsRoundUp then sign else 0))
                 else integralPart)) = integralPartOf hooks (simpleInput row) scale"
    using rounded_integralPart[of "10 ^ scale" scale "simpleInput row"]
    by (simp add: Let_def kPowersOfTen_def integralPartOf_def)
  show ?thesis
    unfolding st decimalToIntegralRow_def
    using ip
    by (auto simp: Let_def cellOf_def setRaw_def setNull_def setVeloxExceptionError_def inRange_def
        outOfBoundsError_def)
qed


text \<open>
  C3 (amended). For every selected row of \<^verbatim>\<open>applyDecimalToIntegralCast\<close> with an
  integral target type and a decimal value \<open>v\<close> of scale \<open>s\<close>:
  \<^item> when \<^verbatim>\<open>hooks.truncate()\<close> is true, the row holds
    \<^verbatim>\<open>static_cast<To>(v / 10^s)\<close>: the quotient truncated towards zero and wrapped into
    the target type, with no rounding and no bounds check, under every policy;
  \<^item> when \<^verbatim>\<open>hooks.truncate()\<close> is false, the integral part is \<open>v / 10^s\<close> truncated
    under \<^verbatim>\<open>SparkTryCastPolicy\<close> and rounded half away from zero under every other policy;
    inside the target's numeric range it is stored; outside, the row is nulled when
    \<^verbatim>\<open>setNullInResultAtError()\<close> holds and otherwise a user error whose message ends in
    "Out of bounds." is recorded for the row.
  The call itself never throws.
\<close>

theorem decimal_to_integral_cast:
  assumes d: "distinct rows" and k: "toKind \<in> {TINYINT, SMALLINT, INTEGER, BIGINT}"
  shows "\<exists>result ctx'.
     applyDecimalToIntegralCast hooks setNullInResultAtError strs rows simpleInput ctx scale toKind initial
       = Inr (result, ctx')
     \<and> (\<forall>row \<in> set rows.
          (truncateHook hooks \<longrightarrow>
             \<not> nulls result row
             \<and> rawValues result row = staticCast toKind (truncDiv (simpleInput row) (10 ^ scale))
             \<and> errors ctx' row = errors ctx row)
        \<and> (\<not> truncateHook hooks \<and> inRange toKind (integralPartOf hooks (simpleInput row) scale) \<longrightarrow>
             \<not> nulls result row
             \<and> rawValues result row = integralPartOf hooks (simpleInput row) scale
             \<and> errors ctx' row = errors ctx row)
        \<and> (\<not> truncateHook hooks \<and> \<not> inRange toKind (integralPartOf hooks (simpleInput row) scale)
             \<and> setNullInResultAtError \<longrightarrow>
             nulls result row \<and> errors ctx' row = errors ctx row)
        \<and> (\<not> truncateHook hooks \<and> \<not> inRange toKind (integralPartOf hooks (simpleInput row) scale)
             \<and> \<not> setNullInResultAtError \<longrightarrow>
             \<not> nulls result row
             \<and> (\<exists>msg. errors ctx' row = Some (ExceptionPtr (VeloxUserError msg))
                    \<and> suffix ''Out of bounds.'' msg)))"
proof -
  define st0 where "st0 = (clearNulls rows initial, ctx)"
  have bw: "0 < bitWidth toKind" using k by auto
  have c0: "\<And>row. row \<in> set rows \<Longrightarrow>
              cellOf st0 row = (False, rawValues initial row, errors ctx row)"
    by (simp add: st0_def cellOf_def clearNulls_def)
  show ?thesis
  proof (cases "truncateHook hooks")
    case True
    obtain st' where run: "applyToSelectedNoThrowLocal setNullInResultAtError
          (decimalToIntegralTruncateRow simpleInput scale toKind) rows st0 = Inr st'"
      and cells: "\<forall>r. cellOf st' r =
          (if r \<in> set rows
           then (\<lambda>r (n, v, e). (n, staticCast toKind (truncDiv (simpleInput r) (10 ^ scale)), e)) r (cellOf st0 r)
           else cellOf st0 r)"
      using applyToSelected_rowLocal[where func = "decimalToIntegralTruncateRow simpleInput scale toKind"
          and h = "\<lambda>r (n, v, e). (n, staticCast toKind (truncDiv (simpleInput r) (10 ^ scale)), e)"
          and b = setNullInResultAtError and st = st0, OF decimalToIntegralTruncateRow_local d]
      by blast
    obtain result ctx' where st': "st' = (result, ctx')" by (cases st')
    have "applyDecimalToIntegralCast hooks setNullInResultAtError strs rows simpleInput ctx scale toKind initial
            = Inr (result, ctx')"
      using True run by (simp add: applyDecimalToIntegralCast_def st0_def st')
    moreover have "\<forall>row \<in> set rows. \<not> nulls result row
             \<and> rawValues result row = staticCast toKind (truncDiv (simpleInput row) (10 ^ scale))
             \<and> errors ctx' row = errors ctx row"
    proof
      fix row assume r: "row \<in> set rows"
      have "cellOf (result, ctx') row
              = (False, staticCast toKind (truncDiv (simpleInput row) (10 ^ scale)), errors ctx row)"
        using cells r c0[OF r] by (simp add: st')
      then show "\<not> nulls result row
             \<and> rawValues result row = staticCast toKind (truncDiv (simpleInput row) (10 ^ scale))
             \<and> errors ctx' row = errors ctx row"
        by (simp add: cellOf_def)
    qed
    ultimately show ?thesis using True by blast
  next
    case False
    obtain st' where run: "applyToSelectedNoThrowLocal setNullInResultAtError
          (decimalToIntegralRow hooks setNullInResultAtError strs simpleInput scale toKind) rows st0 = Inr st'"
      and cells: "\<forall>r. cellOf st' r =
          (if r \<in> set rows
           then (\<lambda>r (n, v, e).
              if inRange toKind (integralPartOf hooks (simpleInput r) scale)
              then (n, staticCast toKind (integralPartOf hooks (simpleInput r) scale), e)
              else if setNullInResultAtError then (True, v, e)
                   else (n, v, Some (ExceptionPtr (outOfBoundsError strs r)))) r (cellOf st0 r)
           else cellOf st0 r)"
      using applyToSelected_rowLocal[where
            func = "decimalToIntegralRow hooks setNullInResultAtError strs simpleInput scale toKind"
          and h = "\<lambda>r (n, v, e).
              if inRange toKind (integralPartOf hooks (simpleInput r) scale)
              then (n, staticCast toKind (integralPartOf hooks (simpleInput r) scale), e)
              else if setNullInResultAtError then (True, v, e)
                   else (n, v, Some (ExceptionPtr (outOfBoundsError strs r)))"
          and b = setNullInResultAtError and st = st0, OF decimalToIntegralRow_local d]
      by blast
    obtain result ctx' where st': "st' = (result, ctx')" by (cases st')
    have "applyDecimalToIntegralCast hooks setNullInResultAtError strs rows simpleInput ctx scale toKind initial
            = Inr (result, ctx')"
      using False run by (simp add: applyDecimalToIntegralCast_def st0_def st')
    moreover have "\<forall>row \<in> set rows.
          (inRange toKind (integralPartOf hooks (simpleInput row) scale) \<longrightarrow>
             \<not> nulls result row
             \<and> rawValues result row = integralPartOf hooks (simpleInput row) scale
             \<and> errors ctx' row = errors ctx row)
        \<and> (\<not> inRange toKind (integralPartOf hooks (simpleInput row) scale)
             \<and> setNullInResultAtError \<longrightarrow>
             nulls result row \<and> errors ctx' row = errors ctx row)
        \<and> (\<not> inRange toKind (integralPartOf hooks (simpleInput row) scale)
             \<and> \<not> setNullInResultAtError \<longrightarrow>
             \<not> nulls result row
             \<and> (\<exists>msg. errors ctx' row = Some (ExceptionPtr (VeloxUserError msg))
                    \<and> suffix ''Out of bounds.'' msg))"
    proof
      fix row assume r: "row \<in> set rows"
      let ?ip = "integralPartOf hooks (simpleInput row) scale"
      have cell: "cellOf (result, ctx') row =
           (if inRange toKind ?ip then (False, staticCast toKind ?ip, errors ctx row)
            else if setNullInResultAtError then (True, rawValues initial row, errors ctx row)
                 else (False, rawValues initial row, Some (ExceptionPtr (outOfBoundsError strs row))))"
        using cells r c0[OF r] by (simp add: st')
      show "(inRange toKind ?ip \<longrightarrow>
             \<not> nulls result row \<and> rawValues result row = ?ip \<and> errors ctx' row = errors ctx row)
        \<and> (\<not> inRange toKind ?ip \<and> setNullInResultAtError \<longrightarrow>
             nulls result row \<and> errors ctx' row = errors ctx row)
        \<and> (\<not> inRange toKind ?ip \<and> \<not> setNullInResultAtError \<longrightarrow>
             \<not> nulls result row
             \<and> (\<exists>msg. errors ctx' row = Some (ExceptionPtr (VeloxUserError msg))
                    \<and> suffix ''Out of bounds.'' msg))"
        using cell staticCast_inRange[OF bw, of ?ip] outOfBoundsError_message[of strs row]
        by (auto simp: cellOf_def split: if_splits)
    qed
    ultimately show ?thesis using False by blast
  qed
qed


lemmas ex_simps = integralPartOf_def roundHalfAwayFromZero_def inRange_def numericLimitsMax_def
  numericLimitsMin_def exampleHooks_def constantInput_def emptyCtx_def truncDiv_def

text \<open>
  Witness for C3: the examples of the claim, obtained from the theorem. With
  \<^verbatim>\<open>truncate()\<close> false, DECIMAL(5,2) 100.50 to INTEGER is 101 under the Presto policy and
  100 under \<^verbatim>\<open>SparkTryCastPolicy\<close>; DECIMAL(10,2) 12345.00 to TINYINT records an
  "Out of bounds." error in a strict cast and is null when errors null the row.
\<close>

theorem decimal_to_integral_cast_witness:
  "distinct [0::nat] \<and> INTEGER \<in> {TINYINT, SMALLINT, INTEGER, BIGINT}
   \<and> TINYINT \<in> {TINYINT, SMALLINT, INTEGER, BIGINT}
   \<and> (\<exists>result ctx'.
        applyDecimalToIntegralCast (exampleHooks False PrestoCastPolicy) False
          (exampleStrings ''DECIMAL(5, 2)'' ''100.50'' ''INTEGER'') [0] (constantInput 10050) (emptyCtx True)
          2 INTEGER emptyVector = Inr (result, ctx')
        \<and> \<not> nulls result 0 \<and> rawValues result 0 = 101 \<and> errors ctx' 0 = None)
   \<and> (\<exists>result ctx'.
        applyDecimalToIntegralCast (exampleHooks False SparkTryCastPolicy) True
          (exampleStrings ''DECIMAL(5, 2)'' ''100.50'' ''INTEGER'') [0] (constantInput 10050) (emptyCtx True)
          2 INTEGER emptyVector = Inr (result, ctx')
        \<and> \<not> nulls result 0 \<and> rawValues result 0 = 100 \<and> errors ctx' 0 = None)
   \<and> (\<exists>result ctx'.
        applyDecimalToIntegralCast (exampleHooks False PrestoCastPolicy) False
          (exampleStrings ''DECIMAL(10, 2)'' ''12345.00'' ''TINYINT'') [0] (constantInput 1234500) (emptyCtx True)
          2 TINYINT emptyVector = Inr (result, ctx')
        \<and> \<not> nulls result 0
        \<and> (\<exists>msg. errors ctx' 0 = Some (ExceptionPtr (VeloxUserError msg))
               \<and> suffix ''Out of bounds.'' msg))
   \<and> (\<exists>result ctx'.
        applyDecimalToIntegralCast (exampleHooks False SparkTryCastPolicy) True
          (exampleStrings ''DECIMAL(10, 2)'' ''12345.00'' ''TINYINT'') [0] (constantInput 1234500) (emptyCtx True)
          2 TINYINT emptyVector = Inr (result, ctx')
        \<and> nulls result 0 \<and> errors ctx' 0 = None)"
proof -
  have d: "distinct [0::nat]" by simp
  have k1: "INTEGER \<in> {TINYINT, SMALLINT, INTEGER, BIGINT}" by simp
  have k2: "TINYINT \<in> {TINYINT, SMALLINT, INTEGER, BIGINT}" by simp
  have e1: "\<exists>result ctx'.
        applyDecimalToIntegralCast (exampleHooks False PrestoCastPolicy) False
          (exampleStrings ''DECIMAL(5, 2)'' ''100.50'' ''INTEGER'') [0] (constantInput 10050) (emptyCtx True)
          2 INTEGER emptyVector = Inr (result, ctx')
        \<and> \<not> nulls result 0 \<and> rawValues result 0 = 101 \<and> errors ctx' 0 = None"
    using decimal_to_integral_cast[OF d k1, where hooks = "exampleHooks False PrestoCastPolicy"
        and setNullInResultAtError = False and simpleInput = "constantInput 10050" and scale = 2
        and ctx = "emptyCtx True" and initial = emptyVector
        and strs = "exampleStrings ''DECIMAL(5, 2)'' ''100.50'' ''INTEGER''"]
    by (simp add: ex_simps)
  have e2: "\<exists>result ctx'.
        applyDecimalToIntegralCast (exampleHooks False SparkTryCastPolicy) True
          (exampleStrings ''DECIMAL(5, 2)'' ''100.50'' ''INTEGER'') [0] (constantInput 10050) (emptyCtx True)
          2 INTEGER emptyVector = Inr (result, ctx')
        \<and> \<not> nulls result 0 \<and> rawValues result 0 = 100 \<and> errors ctx' 0 = None"
    using decimal_to_integral_cast[OF d k1, where hooks = "exampleHooks False SparkTryCastPolicy"
        and setNullInResultAtError = True and simpleInput = "constantInput 10050" and scale = 2
        and ctx = "emptyCtx True" and initial = emptyVector
        and strs = "exampleStrings ''DECIMAL(5, 2)'' ''100.50'' ''INTEGER''"]
    by (simp add: ex_simps)
  have e3: "\<exists>result ctx'.
        applyDecimalToIntegralCast (exampleHooks False PrestoCastPolicy) False
          (exampleStrings ''DECIMAL(10, 2)'' ''12345.00'' ''TINYINT'') [0] (constantInput 1234500) (emptyCtx True)
          2 TINYINT emptyVector = Inr (result, ctx')
        \<and> \<not> nulls result 0
        \<and> (\<exists>msg. errors ctx' 0 = Some (ExceptionPtr (VeloxUserError msg))
               \<and> suffix ''Out of bounds.'' msg)"
    using decimal_to_integral_cast[OF d k2, where hooks = "exampleHooks False PrestoCastPolicy"
        and setNullInResultAtError = False and simpleInput = "constantInput 1234500" and scale = 2
        and ctx = "emptyCtx True" and initial = emptyVector
        and strs = "exampleStrings ''DECIMAL(10, 2)'' ''12345.00'' ''TINYINT''"]
    by (simp add: ex_simps)
  have e4: "\<exists>result ctx'.
        applyDecimalToIntegralCast (exampleHooks False SparkTryCastPolicy) True
          (exampleStrings ''DECIMAL(10, 2)'' ''12345.00'' ''TINYINT'') [0] (constantInput 1234500) (emptyCtx True)
          2 TINYINT emptyVector = Inr (result, ctx')
        \<and> nulls result 0 \<and> errors ctx' 0 = None"
    using decimal_to_integral_cast[OF d k2, where hooks = "exampleHooks False SparkTryCastPolicy"
        and setNullInResultAtError = True and simpleInput = "constantInput 1234500" and scale = 2
        and ctx = "emptyCtx True" and initial = emptyVector
        and strs = "exampleStrings ''DECIMAL(10, 2)'' ''12345.00'' ''TINYINT''"]
    by (simp add: ex_simps)
  show ?thesis using d k1 k2 e1 e2 e3 e4 by blast
qed

text \<open>
  Counterexample to C3 as stated: with \<^verbatim>\<open>hooks.truncate()\<close> true and
  \<^verbatim>\<open>SparkCastPolicy\<close> (a policy other than \<^verbatim>\<open>SparkTryCastPolicy\<close>), DECIMAL(10,2)
  12345.00 to TINYINT stores 57 (12345 wrapped into 8 bits) with no error and no null,
  although 12345 exceeds 127; and DECIMAL(5,2) 100.50 to INTEGER stores 100, not the
  half-away-from-zero 101.
\<close>

theorem decimal_to_integral_truncate_counterexample:
  "truncateHook (exampleHooks True SparkCastPolicy)
   \<and> getPolicy (exampleHooks True SparkCastPolicy) \<noteq> SparkTryCastPolicy
   \<and> roundHalfAwayFromZero 1234500 (10 ^ 2) = 12345 \<and> numericLimitsMax TINYINT = 127
   \<and> (case applyDecimalToIntegralCast (exampleHooks True SparkCastPolicy) False
          (exampleStrings ''DECIMAL(10, 2)'' ''12345.00'' ''TINYINT'') [0] (constantInput 1234500) (emptyCtx True)
          2 TINYINT emptyVector of
        Inl e \<Rightarrow> False
      | Inr (result, ctx') \<Rightarrow>
          \<not> nulls result 0 \<and> rawValues result 0 = 57 \<and> errors ctx' 0 = None)
   \<and> roundHalfAwayFromZero 10050 (10 ^ 2) = 101
   \<and> (case applyDecimalToIntegralCast (exampleHooks True SparkCastPolicy) False
          (exampleStrings ''DECIMAL(5, 2)'' ''100.50'' ''INTEGER'') [0] (constantInput 10050) (emptyCtx True)
          2 INTEGER emptyVector of
        Inl e \<Rightarrow> False
      | Inr (result, ctx') \<Rightarrow>
          \<not> nulls result 0 \<and> rawValues result 0 = 100 \<and> errors ctx' 0 = None)"
  by (simp add: ex_simps applyDecimalToIntegralCast_def decimalToIntegralTruncateRow_def clearNulls_def
      emptyVector_def setRaw_def staticCast_def kPowersOfTen_def)

section \<open>Cast kernel: proofs\<close>


lemma notFixed:
  "\<not> isFixedWidthPrimitive toKind \<Longrightarrow>
     toKind \<noteq> TIMESTAMP \<and> toKind \<noteq> REAL \<and> toKind \<noteq> DOUBLE \<and> \<not> isIntegerKind toKind \<and> toKind \<noteq> HUGEINT"
  by (auto simp: isFixedWidthPrimitive_def isIntegerKind_def)

lemma setResultOrError_withValue:
  "setResultOrError b strs row r st =
     (case withValue r of
        Throws e \<Rightarrow> Inl e
      | Returns (Error m) \<Rightarrow> Inr (castSetError b strs row m st)
      | Returns (Value (Some v)) \<Rightarrow> Inr (setValue (fst st) row v, snd st)
      | Returns (Value None) \<Rightarrow> Inr (setNull (fst st) row, snd st))"
  by (cases r rule: withValue.cases) (simp_all add: setResultOrError_def)

lemma converter_withValue:
  "(case r of Throws e \<Rightarrow> Inl e
     | Returns (Error m) \<Rightarrow> Inr (castSetError b strs row m st)
     | Returns (Value output) \<Rightarrow> Inr (setValue (fst st) row output, snd st)) =
     (case withValue r of
        Throws e \<Rightarrow> Inl e
      | Returns (Error m) \<Rightarrow> Inr (castSetError b strs row m st)
      | Returns (Value (Some v)) \<Rightarrow> Inr (setValue (fst st) row v, snd st)
      | Returns (Value None) \<Rightarrow> Inr (setNull (fst st) row, snd st))"
  by (cases r rule: withValue.cases) simp_all

lemma castKernelTry_rowConversion:
  "castKernelTry toKind fromKind policy hooks tryCast b strs input row st =
     (case rowConversion toKind fromKind policy hooks tryCast (input row) of
        Throws e \<Rightarrow> Inl e
      | Returns (Error m) \<Rightarrow> Inr (castSetError b strs row m st)
      | Returns (Value (Some v)) \<Rightarrow> Inr (setValue (fst st) row v, snd st)
      | Returns (Value None) \<Rightarrow> Inr (setNull (fst st) row, snd st))"
proof -
  consider (a) "isIntegerKind fromKind \<and> toKind = TIMESTAMP"
    | (b) "\<not> (isIntegerKind fromKind \<and> toKind = TIMESTAMP)" "fromKind = BOOLEAN \<and> toKind = TIMESTAMP"
    | (c) "\<not> (isIntegerKind fromKind \<and> toKind = TIMESTAMP)" "\<not> (fromKind = BOOLEAN \<and> toKind = TIMESTAMP)"
          "isIntegerKind toKind \<and> fromKind = TIMESTAMP"
    | (d) "\<not> (isIntegerKind fromKind \<and> toKind = TIMESTAMP)" "\<not> (fromKind = BOOLEAN \<and> toKind = TIMESTAMP)"
          "\<not> (isIntegerKind toKind \<and> fromKind = TIMESTAMP)" "(fromKind = DOUBLE \<or> fromKind = REAL) \<and> toKind = TIMESTAMP"
    | (e) "\<not> (isIntegerKind fromKind \<and> toKind = TIMESTAMP)" "\<not> (fromKind = BOOLEAN \<and> toKind = TIMESTAMP)"
          "\<not> (isIntegerKind toKind \<and> fromKind = TIMESTAMP)" "\<not> ((fromKind = DOUBLE \<or> fromKind = REAL) \<and> toKind = TIMESTAMP)"
          "(fromKind = VARCHAR \<or> fromKind = VARBINARY) \<and> isFixedWidthPrimitive toKind"
    | (f) "\<not> (isIntegerKind fromKind \<and> toKind = TIMESTAMP)" "\<not> (fromKind = BOOLEAN \<and> toKind = TIMESTAMP)"
          "\<not> (isIntegerKind toKind \<and> fromKind = TIMESTAMP)" "\<not> ((fromKind = DOUBLE \<or> fromKind = REAL) \<and> toKind = TIMESTAMP)"
          "\<not> ((fromKind = VARCHAR \<or> fromKind = VARBINARY) \<and> isFixedWidthPrimitive toKind)"
    by blast
  then show ?thesis
  proof cases
    case a
    show ?thesis
      unfolding castKernelTry_def rowConversion_def Let_def
      by (subst if_P[OF a], subst if_P[OF a], rule setResultOrError_withValue)
  next
    case b
    show ?thesis
      unfolding castKernelTry_def rowConversion_def Let_def
      by (subst if_not_P[OF b(1)], subst if_not_P[OF b(1)], subst if_P[OF b(2)], subst if_P[OF b(2)],
          rule setResultOrError_withValue)
  next
    case c
    show ?thesis
      unfolding castKernelTry_def rowConversion_def Let_def
      by (subst if_not_P[OF c(1)], subst if_not_P[OF c(1)], subst if_not_P[OF c(2)], subst if_not_P[OF c(2)],
          subst if_P[OF c(3)], subst if_P[OF c(3)], rule setResultOrError_withValue)
  next
    case d
    show ?thesis
      unfolding castKernelTry_def rowConversion_def Let_def
      by (subst if_not_P[OF d(1)], subst if_not_P[OF d(1)], subst if_not_P[OF d(2)], subst if_not_P[OF d(2)],
          subst if_not_P[OF d(3)], subst if_not_P[OF d(3)], subst if_P[OF d(4)], subst if_P[OF d(4)], rule refl)
  next
    case e
    have l: "castKernelTry toKind fromKind policy hooks tryCast b strs input row st =
        (let stripped = StringValue (removeWhiteSpaces hooks (stringOf (input row)))
         in if length (stringOf stripped) = 0
               then Inr (castSetError b strs row ''Empty string'' st)
               else if toKind = TIMESTAMP
               then setResultOrError b strs row (castStringToTimestamp hooks (stringOf stripped)) st
               else if toKind = REAL
               then setResultOrError b strs row (castStringToReal hooks (stringOf stripped)) st
               else if toKind = DOUBLE
               then setResultOrError b strs row (castStringToDouble hooks (stringOf stripped)) st
               else if (isIntegerKind toKind \<or> toKind = HUGEINT)
                       \<and> throwOnUnicode policy \<and> \<not> isAscii (stringOf stripped)
               then Inl (VeloxUserError
                           ''Unicode characters are not supported for conversion to integer types'')
               else (case tryCast toKind policy stripped of
                       Throws e \<Rightarrow> Inl e
                     | Returns (Error m) \<Rightarrow> Inr (castSetError b strs row m st)
                     | Returns (Value output) \<Rightarrow> Inr (setValue (fst st) row output, snd st)))"
    proof -
      from e(5) have src: "(fromKind = VARCHAR \<or> fromKind = VARBINARY) \<equiv> True"
        and fw: "isFixedWidthPrimitive toKind \<equiv> True" by simp_all
      show ?thesis
        unfolding castKernelTry_def Let_def
        apply (subst if_not_P[OF e(1)], subst if_not_P[OF e(2)], subst if_not_P[OF e(3)], subst if_not_P[OF e(4)])
        unfolding src fw by (simp only: simp_thms if_True)
    qed
    have r: "rowConversion toKind fromKind policy hooks tryCast (input row) =
        (if removeWhiteSpaces hooks (stringOf (input row)) = [] then Returns (Error ''Empty string'')
            else withValue (stringConversion toKind policy hooks tryCast (removeWhiteSpaces hooks (stringOf (input row)))))"
      unfolding rowConversion_def
      by (subst if_not_P[OF e(1)], subst if_not_P[OF e(2)], subst if_not_P[OF e(3)], subst if_not_P[OF e(4)],
          subst if_P[OF e(5)], rule refl)
    show ?thesis
    proof (cases "removeWhiteSpaces hooks (stringOf (input row)) = []")
      case True
      then show ?thesis unfolding l r by (simp add: Let_def)
    next
      case False
      then show ?thesis unfolding l r
        by (auto simp: Let_def stringConversion_def setResultOrError_withValue converter_withValue)
    qed
  next
    case f
    have r: "rowConversion toKind fromKind policy hooks tryCast (input row) =
        withValue (tryCast toKind policy (input row))"
      unfolding rowConversion_def
      by (subst if_not_P[OF f(1)], subst if_not_P[OF f(2)], subst if_not_P[OF f(3)], subst if_not_P[OF f(4)],
          subst if_not_P[OF f(5)], rule refl)
    have l: "castKernelTry toKind fromKind policy hooks tryCast b strs input row st =
        (case tryCast toKind policy (input row) of
                       Throws e \<Rightarrow> Inl e
                     | Returns (Error m) \<Rightarrow> Inr (castSetError b strs row m st)
                     | Returns (Value output) \<Rightarrow> Inr (setValue (fst st) row output, snd st))"
    proof (cases "fromKind = VARCHAR \<or> fromKind = VARBINARY")
      case True
      then have nf: "\<not> isFixedWidthPrimitive toKind" using f by simp
      from notFixed[OF nf] nf have k: "isFixedWidthPrimitive toKind \<equiv> False" "toKind = TIMESTAMP \<equiv> False"
        "toKind = REAL \<equiv> False" "toKind = DOUBLE \<equiv> False" "isIntegerKind toKind \<equiv> False"
        "toKind = HUGEINT \<equiv> False" by simp_all
      show ?thesis
        unfolding castKernelTry_def Let_def
        apply (subst if_not_P[OF f(1)], subst if_not_P[OF f(2)], subst if_not_P[OF f(3)], subst if_not_P[OF f(4)])
        unfolding k by (simp only: simp_thms if_False)
    next
      case False
      then have k: "(fromKind = VARCHAR \<or> fromKind = VARBINARY) \<equiv> False" by simp
      show ?thesis
        unfolding castKernelTry_def Let_def
        apply (subst if_not_P[OF f(1)], subst if_not_P[OF f(2)], subst if_not_P[OF f(3)], subst if_not_P[OF f(4)])
        unfolding k by (simp only: simp_thms if_False)
    qed
    show ?thesis unfolding l r by (rule converter_withValue)
  qed
qed

lemma applyCastKernel_outcome:
  "applyCastKernel toKind fromKind policy hooks tryCast b strs input row st =
     (case outcomeOf (rowConversion toKind fromKind policy hooks tryCast (input row)) of
        Converted v \<Rightarrow> Inr (setValue (fst st) row v, snd st)
      | ConvertedToNull \<Rightarrow> Inr (setNull (fst st) row, snd st)
      | Failed details \<Rightarrow> Inr (castSetError b strs row details st)
      | Aborted e \<Rightarrow> Inl e)"
  unfolding applyCastKernel_def castKernelTry_rowConversion
  by (cases "rowConversion toKind fromKind policy hooks tryCast (input row)" rule: outcomeOf.cases)
     (simp_all add: castKernelCatch_def)







text \<open>
  C8. For a VARCHAR or VARBINARY source and a fixed-width primitive target other than
  TIMESTAMP: if nothing is left of the input once \<^verbatim>\<open>hooks_->removeWhiteSpaces\<close> has
  stripped it, the result is that of \<^verbatim>\<open>setError("Empty string")\<close>, whatever the converter
  and the conversion hooks are: a null row in a try cast, a recorded user error in a
  strict cast. Otherwise the stripped string is what is converted: the row is set to the
  value that the conversion of the stripped string returns, its error is the failure of
  the row, and what it throws goes to the handlers of the kernel; for a target other
  than REAL and DOUBLE and an input that the policy does not reject as non-ASCII, the
  conversion is the converter applied to the stripped string. So the kernel gives the
  result that it gives on the stripped row with a hook that strips nothing.
\<close>

theorem string_cast_strips_whitespace:
  assumes src: "fromKind = VARCHAR \<or> fromKind = VARBINARY"
    and tgt: "isFixedWidthPrimitive toKind" "toKind \<noteq> TIMESTAMP"
    and inp: "input row = StringValue s"
  shows "(removeWhiteSpaces hooks s = [] \<longrightarrow>
            applyCastKernel toKind fromKind policy hooks tryCast b strs input row st
              = Inr (castSetError b strs row ''Empty string'' st))
         \<and> (removeWhiteSpaces hooks s \<noteq> [] \<longrightarrow>
            applyCastKernel toKind fromKind policy hooks tryCast b strs input row st
              = (case stringConversion toKind policy hooks tryCast (removeWhiteSpaces hooks s) of
                   Returns (Value v) \<Rightarrow> Inr (setValue (fst st) row v, snd st)
                 | Returns (Error m) \<Rightarrow> Inr (castSetError b strs row m st)
                 | Throws e \<Rightarrow> castKernelCatch True b strs row e st))
         \<and> (toKind \<noteq> REAL \<and> toKind \<noteq> DOUBLE
              \<and> \<not> (throwOnUnicode policy \<and> \<not> isAscii (removeWhiteSpaces hooks s)) \<longrightarrow>
            stringConversion toKind policy hooks tryCast (removeWhiteSpaces hooks s)
              = tryCast toKind policy (StringValue (removeWhiteSpaces hooks s)))
         \<and> applyCastKernel toKind fromKind policy hooks tryCast b strs input row st
           = applyCastKernel toKind fromKind policy (hooks\<lparr>removeWhiteSpaces := (\<lambda>x. x)\<rparr>) tryCast b strs
               (input(row := StringValue (removeWhiteSpaces hooks s))) row st"
proof -
  have nt: "fromKind \<noteq> TIMESTAMP" "fromKind \<noteq> BOOLEAN" "fromKind \<noteq> DOUBLE" "fromKind \<noteq> REAL"
    "\<not> isIntegerKind fromKind"
    using src by (auto simp: isIntegerKind_def)
  have r: "rowConversion toKind fromKind policy hooks tryCast (input row) =
        (if removeWhiteSpaces hooks s = [] then Returns (Error ''Empty string'')
         else withValue (stringConversion toKind policy hooks tryCast (removeWhiteSpaces hooks s)))"
    using nt src tgt(1) inp by (simp add: rowConversion_def)
  have a: "removeWhiteSpaces hooks s = [] \<longrightarrow>
            applyCastKernel toKind fromKind policy hooks tryCast b strs input row st
              = Inr (castSetError b strs row ''Empty string'' st)"
    unfolding applyCastKernel_outcome r by simp
  have c: "removeWhiteSpaces hooks s \<noteq> [] \<longrightarrow>
            applyCastKernel toKind fromKind policy hooks tryCast b strs input row st
              = (case stringConversion toKind policy hooks tryCast (removeWhiteSpaces hooks s) of
                   Returns (Value v) \<Rightarrow> Inr (setValue (fst st) row v, snd st)
                 | Returns (Error m) \<Rightarrow> Inr (castSetError b strs row m st)
                 | Throws e \<Rightarrow> castKernelCatch True b strs row e st)"
    unfolding applyCastKernel_outcome r
    by (cases "stringConversion toKind policy hooks tryCast (removeWhiteSpaces hooks s)" rule: withValue.cases)
       (auto simp: castKernelCatch_def split: VeloxException.splits)
  have d: "toKind \<noteq> REAL \<and> toKind \<noteq> DOUBLE
              \<and> \<not> (throwOnUnicode policy \<and> \<not> isAscii (removeWhiteSpaces hooks s)) \<longrightarrow>
            stringConversion toKind policy hooks tryCast (removeWhiteSpaces hooks s)
              = tryCast toKind policy (StringValue (removeWhiteSpaces hooks s))"
    using tgt by (auto simp: stringConversion_def)
  have e: "applyCastKernel toKind fromKind policy hooks tryCast b strs input row st
           = applyCastKernel toKind fromKind policy (hooks\<lparr>removeWhiteSpaces := (\<lambda>x. x)\<rparr>) tryCast b strs
               (input(row := StringValue (removeWhiteSpaces hooks s))) row st"
    using src tgt inp
    by (auto simp: applyCastKernel_def castKernelTry_def Let_def isIntegerKind_def)
  show ?thesis using a c d e by blast
qed

text \<open>
  Witness for C8: \<^verbatim>\<open>' 12 '\<close> is converted as \<^verbatim>\<open>'12'\<close>, which the example converter turns
  into 12 while it rejects \<^verbatim>\<open>' 12 '\<close>; and \<^verbatim>\<open>'  '\<close> strips to the empty string and nulls
  the row of a try cast.
\<close>

theorem string_cast_strips_whitespace_witness:
  "(VARCHAR = VARCHAR \<or> VARCHAR = VARBINARY) \<and> isFixedWidthPrimitive INTEGER \<and> INTEGER \<noteq> TIMESTAMP
   \<and> constantColumn (StringValue '' 12 '') 0 = StringValue '' 12 ''
   \<and> removeWhiteSpaces (exampleHooks False PrestoCastPolicy) '' 12 '' = ''12''
   \<and> stringConversion INTEGER PrestoCastPolicy (exampleHooks False PrestoCastPolicy) exampleConverter ''12''
        = exampleConverter INTEGER PrestoCastPolicy (StringValue ''12'')
   \<and> exampleConverter INTEGER PrestoCastPolicy (StringValue ''12'') = Returns (Value (IntValue 12))
   \<and> exampleConverter INTEGER PrestoCastPolicy (StringValue '' 12 '') = Returns (Error ''Invalid input'')
   \<and> applyCastKernel INTEGER VARCHAR PrestoCastPolicy (exampleHooks False PrestoCastPolicy) exampleConverter
        False (exampleStrings ''VARCHAR'' '' 12 '' ''INTEGER'') (constantColumn (StringValue '' 12 '')) 0
        (emptyNativeVector, emptyCtx True)
      = Inr (setValue emptyNativeVector 0 (IntValue 12), emptyCtx True)
   \<and> removeWhiteSpaces (exampleHooks False PrestoCastPolicy) ''  '' = []
   \<and> applyCastKernel INTEGER VARCHAR PrestoCastPolicy (exampleHooks False PrestoCastPolicy) exampleConverter
        True (exampleStrings ''VARCHAR'' ''  '' ''INTEGER'') (constantColumn (StringValue ''  '')) 0
        (emptyNativeVector, emptyCtx True)
      = Inr (setNull emptyNativeVector 0, emptyCtx True)"
proof -
  have a: "VARCHAR = VARCHAR \<or> VARCHAR = VARBINARY" by simp
  have b: "isFixedWidthPrimitive INTEGER" by (simp add: isFixedWidthPrimitive_def)
  have c: "INTEGER \<noteq> TIMESTAMP" by simp
  have d: "constantColumn (StringValue '' 12 '') 0 = StringValue '' 12 ''"
    "constantColumn (StringValue ''  '') 0 = StringValue ''  ''"
    by (simp_all add: constantColumn_def)
  have e: "removeWhiteSpaces (exampleHooks False PrestoCastPolicy) '' 12 '' = ''12''"
    "removeWhiteSpaces (exampleHooks False PrestoCastPolicy) ''  '' = []"
    by (simp_all add: exampleHooks_def)
  have conv: "exampleConverter INTEGER PrestoCastPolicy (StringValue ''12'') = Returns (Value (IntValue 12))"
    "exampleConverter INTEGER PrestoCastPolicy (StringValue '' 12 '') = Returns (Error ''Invalid input'')"
    by (simp_all add: exampleConverter_def isIntegerKind_def)
  have ascii: "INTEGER \<noteq> REAL \<and> INTEGER \<noteq> DOUBLE
      \<and> \<not> (throwOnUnicode PrestoCastPolicy
            \<and> \<not> isAscii (removeWhiteSpaces (exampleHooks False PrestoCastPolicy) '' 12 ''))"
    by (simp add: throwOnUnicode_def)
  note t1 = string_cast_strips_whitespace[where input = "constantColumn (StringValue '' 12 '')"
        and row = 0 and s = "'' 12 ''" and policy = PrestoCastPolicy
        and hooks = "exampleHooks False PrestoCastPolicy" and tryCast = exampleConverter and b = False
        and strs = "exampleStrings ''VARCHAR'' '' 12 '' ''INTEGER''"
        and st = "(emptyNativeVector, emptyCtx True)", OF a b c d(1)]
  note t2 = string_cast_strips_whitespace[where input = "constantColumn (StringValue ''  '')"
        and row = 0 and s = "''  ''" and policy = PrestoCastPolicy
        and hooks = "exampleHooks False PrestoCastPolicy" and tryCast = exampleConverter and b = True
        and strs = "exampleStrings ''VARCHAR'' ''  '' ''INTEGER''"
        and st = "(emptyNativeVector, emptyCtx True)", OF a b c d(2)]
  have sc: "stringConversion INTEGER PrestoCastPolicy (exampleHooks False PrestoCastPolicy) exampleConverter ''12''
        = exampleConverter INTEGER PrestoCastPolicy (StringValue ''12'')"
    using t1[THEN conjunct2, THEN conjunct2, THEN conjunct1, rule_format, OF ascii] unfolding e(1) .
  have ne: "removeWhiteSpaces (exampleHooks False PrestoCastPolicy) '' 12 '' \<noteq> []"
    unfolding e(1) by simp
  have f1: "applyCastKernel INTEGER VARCHAR PrestoCastPolicy (exampleHooks False PrestoCastPolicy) exampleConverter
        False (exampleStrings ''VARCHAR'' '' 12 '' ''INTEGER'') (constantColumn (StringValue '' 12 '')) 0
        (emptyNativeVector, emptyCtx True)
      = Inr (setValue emptyNativeVector 0 (IntValue 12), emptyCtx True)"
    using t1[THEN conjunct2, THEN conjunct1, rule_format, OF ne] unfolding e(1) sc conv(1) by simp
  have f2: "applyCastKernel INTEGER VARCHAR PrestoCastPolicy (exampleHooks False PrestoCastPolicy) exampleConverter
        True (exampleStrings ''VARCHAR'' ''  '' ''INTEGER'') (constantColumn (StringValue ''  '')) 0
        (emptyNativeVector, emptyCtx True)
      = Inr (setNull emptyNativeVector 0, emptyCtx True)"
    using t2[THEN conjunct1, rule_format, OF e(2)] by (simp add: castSetError_def)
  show ?thesis
    by (intro conjI a b c d(1) e sc conv f1 f2)
qed

section \<open>Decimal to VARCHAR cast: proofs\<close>

lemma applyToSelected_fold:
  assumes "\<And>row st. func row st = Inr (g row st)"
  shows "applyToSelectedNoThrowLocal b func rows st = Inr (fold g rows st)"
proof (induction rows arbitrary: st)
  case Nil
  then show ?case by simp
next
  case (Cons row rows)
  then show ?case using assms by (cases st) simp
qed

lemma inlineRow_step:
  "decimalToVarcharInlineRow ds simpleInput scale rowSize row st = Inr (inlineStep ds simpleInput scale rowSize row st)"
  by (cases st) (simp add: decimalToVarcharInlineRow_def inlineStep_def Let_def)

lemma bufferRow_step:
  "decimalToVarcharBufferRow ds simpleInput scale rowSize row st = Inr (bufferStep ds simpleInput scale rowSize row st)"
  by (cases st) (simp add: decimalToVarcharBufferRow_def bufferStep_def Let_def setRaw_def)

lemma inline_fold:
  assumes "distinct rows"
  shows "snd (fold (inlineStep ds simpleInput scale rowSize) rows st) = snd st
     \<and> nulls (fst (fold (inlineStep ds simpleInput scale rowSize) rows st)) = nulls (fst st)
     \<and> stringBuffer (fst (fold (inlineStep ds simpleInput scale rowSize) rows st)) = stringBuffer (fst st)
     \<and> written (fst (fold (inlineStep ds simpleInput scale rowSize) rows st)) = written (fst st)
     \<and> (\<forall>row. rawValues (fst (fold (inlineStep ds simpleInput scale rowSize) rows st)) row =
           (if row \<in> set rows
            then (if isInline ds (length (castToString ds (simpleInput row) scale rowSize))
                  then Inlined (castToString ds (simpleInput row) scale rowSize)
                  else InLocalArray (length (castToString ds (simpleInput row) scale rowSize)))
            else rawValues (fst st) row))"
  using assms
proof (induction rows arbitrary: st)
  case Nil
  then show ?case by simp
next
  case (Cons r rows)
  from Cons.prems have d: "distinct rows" and nin: "r \<notin> set rows" by auto
  show ?case
    using Cons.IH[OF d, of "inlineStep ds simpleInput scale rowSize r st"] nin
    by (auto simp: inlineStep_def setRaw_def)
qed

lemma nonInlineBytes_Cons:
  "nonInlineBytes ds simpleInput scale rowSize (r # rows) =
     (if isInline ds (length (castToString ds (simpleInput r) scale rowSize)) then 0
      else length (castToString ds (simpleInput r) scale rowSize))
     + nonInlineBytes ds simpleInput scale rowSize rows"
  by (simp add: nonInlineBytes_def)

lemma buffer_fold:
  assumes "distinct rows"
    and "\<forall>row \<in> set rows. length (castToString ds (simpleInput row) scale rowSize) \<le> rowSize"
  shows "snd (fold (bufferStep ds simpleInput scale rowSize) rows st) = snd st
     \<and> nulls (fst (fold (bufferStep ds simpleInput scale rowSize) rows st)) = nulls (fst st)
     \<and> bufferSize (stringBuffer (fst (fold (bufferStep ds simpleInput scale rowSize) rows st)))
         = bufferSize (stringBuffer (fst st))
     \<and> rawBuffer (fst (fold (bufferStep ds simpleInput scale rowSize) rows st))
         = rawBuffer (fst st) + nonInlineBytes ds simpleInput scale rowSize rows
     \<and> nonInlineBytes ds simpleInput scale rowSize rows \<le> length rows * rowSize
     \<and> (\<exists>new. written (fst (fold (bufferStep ds simpleInput scale rowSize) rows st)) = new @ written (fst st)
           \<and> (\<forall>(offset, n) \<in> set new.
                 rawBuffer (fst st) \<le> offset \<and> offset + n \<le> rawBuffer (fst st) + length rows * rowSize))
     \<and> (\<forall>row. row \<in> set rows \<longrightarrow>
            viewSize (rawValues (fst (fold (bufferStep ds simpleInput scale rowSize) rows st)) row)
              = length (castToString ds (simpleInput row) scale rowSize)
          \<and> (isInline ds (length (castToString ds (simpleInput row) scale rowSize)) \<longrightarrow>
               rawValues (fst (fold (bufferStep ds simpleInput scale rowSize) rows st)) row
                 = Inlined (castToString ds (simpleInput row) scale rowSize)))
     \<and> (\<forall>row. row \<notin> set rows \<longrightarrow>
            rawValues (fst (fold (bufferStep ds simpleInput scale rowSize) rows st)) row
              = rawValues (fst st) row)"
  using assms
proof (induction rows arbitrary: st)
  case Nil
  then show ?case by (simp add: nonInlineBytes_def)
next
  case (Cons r rows)
  let ?g = "bufferStep ds simpleInput scale rowSize"
  let ?len = "length (castToString ds (simpleInput r) scale rowSize)"
  let ?st1 = "?g r st"
  from Cons.prems have d: "distinct rows" and nin: "r \<notin> set rows"
    and b: "\<forall>row \<in> set rows. length (castToString ds (simpleInput row) scale rowSize) \<le> rowSize"
    and br: "?len \<le> rowSize" by auto
  note IH = Cons.IH[OF d b, of ?st1]
  have s1: "snd ?st1 = snd st" "nulls (fst ?st1) = nulls (fst st)"
    "bufferSize (stringBuffer (fst ?st1)) = bufferSize (stringBuffer (fst st))"
    "rawBuffer (fst ?st1) = rawBuffer (fst st) + (if isInline ds ?len then 0 else ?len)"
    "written (fst ?st1) = (rawBuffer (fst st), ?len) # written (fst st)"
    "viewSize (rawValues (fst ?st1) r) = ?len"
    "isInline ds ?len \<Longrightarrow> rawValues (fst ?st1) r = Inlined (castToString ds (simpleInput r) scale rowSize)"
    "\<And>row. row \<noteq> r \<Longrightarrow> rawValues (fst ?st1) row = rawValues (fst st) row"
    by (simp_all add: bufferStep_def Let_def writeBuffer_def)
  have f: "fold ?g (r # rows) st = fold ?g rows ?st1" by simp
  from IH obtain new where new: "written (fst (fold ?g rows ?st1)) = new @ written (fst ?st1)"
    and reg: "\<forall>(offset, n) \<in> set new.
                 rawBuffer (fst ?st1) \<le> offset \<and> offset + n \<le> rawBuffer (fst ?st1) + length rows * rowSize"
    by blast
  have adv: "rawBuffer (fst st) \<le> rawBuffer (fst ?st1)" "rawBuffer (fst ?st1) \<le> rawBuffer (fst st) + rowSize"
    using br by (simp_all add: s1(4))
  have w: "written (fst (fold ?g (r # rows) st)) = (new @ [(rawBuffer (fst st), ?len)]) @ written (fst st)"
    unfolding f new s1(5) by simp
  have regs: "\<forall>(offset, n) \<in> set (new @ [(rawBuffer (fst st), ?len)]).
      rawBuffer (fst st) \<le> offset \<and> offset + n \<le> rawBuffer (fst st) + length (r # rows) * rowSize"
    using reg adv br by (auto simp: algebra_simps)
  have bytes: "nonInlineBytes ds simpleInput scale rowSize (r # rows) \<le> length (r # rows) * rowSize"
    using IH br by (simp add: nonInlineBytes_Cons)
  have views: "\<forall>row. row \<in> set (r # rows) \<longrightarrow>
            viewSize (rawValues (fst (fold ?g (r # rows) st)) row)
              = length (castToString ds (simpleInput row) scale rowSize)
          \<and> (isInline ds (length (castToString ds (simpleInput row) scale rowSize)) \<longrightarrow>
               rawValues (fst (fold ?g (r # rows) st)) row
                 = Inlined (castToString ds (simpleInput row) scale rowSize))"
    unfolding f using IH s1(6,7) nin by auto
  have others: "\<forall>row. row \<notin> set (r # rows) \<longrightarrow>
            rawValues (fst (fold ?g (r # rows) st)) row = rawValues (fst st) row"
    unfolding f using IH s1(8) by auto
  have basics: "snd (fold ?g (r # rows) st) = snd st"
     "nulls (fst (fold ?g (r # rows) st)) = nulls (fst st)"
     "bufferSize (stringBuffer (fst (fold ?g (r # rows) st))) = bufferSize (stringBuffer (fst st))"
     "rawBuffer (fst (fold ?g (r # rows) st))
         = rawBuffer (fst st) + nonInlineBytes ds simpleInput scale rowSize (r # rows)"
    unfolding f using IH s1(1-4) by (simp_all add: nonInlineBytes_Cons)
  show ?case
    using basics bytes w regs views others by blast
qed


text \<open>
  C10. Given the bound that the spec states for \<^verbatim>\<open>DecimalUtil::castToString\<close> (every
  string it writes for a selected row is at most \<^verbatim>\<open>maxStringViewSize(precision, scale)\<close>
  long), \<^verbatim>\<open>applyDecimalToVarcharCast\<close> over distinct selected rows returns without an error
  and leaves every selected row non-null with a string view of the length of the written
  string, which is at most \<^verbatim>\<open>maxStringViewSize(precision, scale)\<close>. When that bound is
  inline, the string buffer is untouched, nothing is written to it and every view is
  inlined. Otherwise every region written lies between the size the buffer had and that
  size plus \<^verbatim>\<open>countSelected * rowSize\<close>; \<^verbatim>\<open>rawBuffer\<close> has advanced by the lengths of the
  results too long to be inlined and by nothing else; and the size recorded at the end
  is the size the buffer had plus exactly those bytes, which for a buffer that was empty
  is exactly those bytes.
\<close>

theorem decimal_to_varchar_arena:
  assumes d: "distinct rows"
    and bound: "castToStringBounded ds rows simpleInput precision scale"
  shows "\<exists>result.
     applyDecimalToVarcharCast ds b rows simpleInput ctx precision scale initial = Inr (result, ctx)
     \<and> (\<forall>row \<in> set rows.
           \<not> nulls result row
           \<and> viewSize (rawValues result row)
               = length (castToString ds (simpleInput row) scale (maxStringViewSize ds precision scale))
           \<and> viewSize (rawValues result row) \<le> maxStringViewSize ds precision scale)
     \<and> (isInline ds (maxStringViewSize ds precision scale) \<longrightarrow>
           stringBuffer result = stringBuffer initial \<and> written result = written initial
           \<and> (\<forall>row \<in> set rows. rawValues result row
                  = Inlined (castToString ds (simpleInput row) scale (maxStringViewSize ds precision scale))))
     \<and> (\<not> isInline ds (maxStringViewSize ds precision scale) \<longrightarrow>
           (\<exists>new. written result = new @ written initial
              \<and> (\<forall>(offset, n) \<in> set new.
                    bufferSize (stringBuffer initial) \<le> offset
                    \<and> offset + n \<le> bufferSize (stringBuffer initial)
                                     + length rows * maxStringViewSize ds precision scale))
           \<and> rawBuffer result = bufferSize (stringBuffer initial)
                 + nonInlineBytes ds simpleInput scale (maxStringViewSize ds precision scale) rows
           \<and> bufferSize (stringBuffer result) = bufferSize (stringBuffer initial)
                 + nonInlineBytes ds simpleInput scale (maxStringViewSize ds precision scale) rows
           \<and> (bufferSize (stringBuffer initial) = 0 \<longrightarrow>
                bufferSize (stringBuffer result)
                  = nonInlineBytes ds simpleInput scale (maxStringViewSize ds precision scale) rows))"
proof -
  define rowSize where "rowSize = maxStringViewSize ds precision scale"
  define cleared where "cleared = clearNulls rows initial"
  have bnd: "\<forall>row \<in> set rows. length (castToString ds (simpleInput row) scale rowSize) \<le> rowSize"
    using bound by (simp add: castToStringBounded_def list_all_iff rowSize_def)
  have cl: "\<And>row. row \<in> set rows \<Longrightarrow> \<not> nulls cleared row"
    "stringBuffer cleared = stringBuffer initial" "written cleared = written initial"
    by (simp_all add: cleared_def clearNulls_def)
  show ?thesis
  proof (cases "isInline ds rowSize")
    case True
    let ?st' = "fold (inlineStep ds simpleInput scale rowSize) rows (cleared, ctx)"
    have run: "applyDecimalToVarcharCast ds b rows simpleInput ctx precision scale initial = Inr ?st'"
      using True applyToSelected_fold[of "decimalToVarcharInlineRow ds simpleInput scale rowSize"
          "inlineStep ds simpleInput scale rowSize" b rows "(cleared, ctx)", OF inlineRow_step]
      by (simp add: applyDecimalToVarcharCast_def Let_def rowSize_def[symmetric] cleared_def[symmetric])
    note inv = inline_fold[OF d, of ds simpleInput scale rowSize "(cleared, ctx)"]
    have inl: "\<And>row. row \<in> set rows \<Longrightarrow> isInline ds (length (castToString ds (simpleInput row) scale rowSize))"
      using bnd True by (auto simp: isInline_def)
    have vals: "\<And>row. row \<in> set rows \<Longrightarrow>
        rawValues (fst ?st') row = Inlined (castToString ds (simpleInput row) scale rowSize)"
      using inv inl by simp
    have "?st' = (fst ?st', ctx)" using inv by (metis prod.collapse snd_conv)
    then have "applyDecimalToVarcharCast ds b rows simpleInput ctx precision scale initial = Inr (fst ?st', ctx)"
      using run by simp
    moreover have "\<forall>row \<in> set rows.
           \<not> nulls (fst ?st') row
           \<and> viewSize (rawValues (fst ?st') row) = length (castToString ds (simpleInput row) scale rowSize)
           \<and> viewSize (rawValues (fst ?st') row) \<le> rowSize"
      using inv cl(1) vals bnd by simp
    moreover have "stringBuffer (fst ?st') = stringBuffer initial \<and> written (fst ?st') = written initial
           \<and> (\<forall>row \<in> set rows. rawValues (fst ?st') row
                  = Inlined (castToString ds (simpleInput row) scale rowSize))"
      using inv cl(2,3) vals by simp
    ultimately show ?thesis using True unfolding rowSize_def by blast
  next
    case False
    define start where "start = cleared\<lparr>rawBuffer := bufferSize (stringBuffer cleared)\<rparr>"
    let ?st' = "fold (bufferStep ds simpleInput scale rowSize) rows (start, ctx)"
    define result where
      "result = (fst ?st')\<lparr>stringBuffer := (stringBuffer (fst ?st'))\<lparr>bufferSize := rawBuffer (fst ?st')\<rparr>\<rparr>"
    note inv = buffer_fold[OF d bnd, of "(start, ctx)"]
    have st0: "rawBuffer start = bufferSize (stringBuffer initial)" "written start = written initial"
      "nulls start = nulls cleared"
      by (simp_all add: start_def cl)
    have pair: "?st' = (fst ?st', ctx)" using inv by (metis prod.collapse snd_conv)
    have loop: "applyToSelectedNoThrowLocal b (decimalToVarcharBufferRow ds simpleInput scale rowSize) rows
            (start, ctx) = Inr (fst ?st', ctx)"
      using applyToSelected_fold[of "decimalToVarcharBufferRow ds simpleInput scale rowSize"
          "bufferStep ds simpleInput scale rowSize" b rows "(start, ctx)", OF bufferRow_step] pair
      by simp
    have run: "applyDecimalToVarcharCast ds b rows simpleInput ctx precision scale initial = Inr (result, ctx)"
      using False loop
      by (simp add: applyDecimalToVarcharCast_def Let_def rowSize_def[symmetric] cleared_def[symmetric]
          start_def[symmetric] result_def)
    have r1: "\<forall>row \<in> set rows.
           \<not> nulls result row
           \<and> viewSize (rawValues result row) = length (castToString ds (simpleInput row) scale rowSize)
           \<and> viewSize (rawValues result row) \<le> rowSize"
      using inv cl(1) bnd st0(3) by (simp add: result_def)
    have r2: "\<exists>new. written result = new @ written initial
              \<and> (\<forall>(offset, n) \<in> set new.
                    bufferSize (stringBuffer initial) \<le> offset
                    \<and> offset + n \<le> bufferSize (stringBuffer initial) + length rows * rowSize)"
      using inv st0(1,2) by (simp add: result_def)
    have r3: "rawBuffer result = bufferSize (stringBuffer initial)
                 + nonInlineBytes ds simpleInput scale rowSize rows"
       "bufferSize (stringBuffer result) = bufferSize (stringBuffer initial)
                 + nonInlineBytes ds simpleInput scale rowSize rows"
      using inv st0(1) by (simp_all add: result_def)
    show ?thesis using False run r1 r2 r3 unfolding rowSize_def by auto
  qed
qed

lemma ex_strings:
  "castToString exampleDecimalStrings (exampleDecimals 0) 2 20 = ''123.45''"
  "castToString exampleDecimalStrings (exampleDecimals 1) 2 20 = ''-12345678901234.56''"
  "castToString exampleDecimalStrings (exampleDecimals (Suc 0)) 2 20 = ''-12345678901234.56''"
  "castToString exampleDecimalStrings (exampleDecimals 2) 2 20 = ''0.00''"
  "maxStringViewSize exampleDecimalStrings 18 2 = 20"
  "kInlineSize exampleDecimalStrings = 12"
  by (simp_all add: exampleDecimalStrings_def exampleDecimals_def)

text \<open>
  Witness for C10: three DECIMAL(18, 2) rows with a bound of 20 characters. Two results
  are inlined; the middle one takes 18 bytes of an empty buffer, whose recorded size
  ends at 18, and all writes stay within the 60 reserved bytes.
\<close>

theorem decimal_to_varchar_arena_witness:
  "distinct [0::nat, 1, 2]
   \<and> castToStringBounded exampleDecimalStrings [0, 1, 2] exampleDecimals 18 2
   \<and> (\<exists>result.
        applyDecimalToVarcharCast exampleDecimalStrings False [0, 1, 2] exampleDecimals (emptyCtx True) 18 2
          (emptyStringVector 0) = Inr (result, emptyCtx True)
        \<and> viewSize (rawValues result 0) = 6 \<and> viewSize (rawValues result 1) = 18
        \<and> viewSize (rawValues result 2) = 4
        \<and> bufferSize (stringBuffer result) = 18
        \<and> (\<exists>new. written result = new
              \<and> (\<forall>(offset, n) \<in> set new. offset + n \<le> 3 * 20)))"
proof -
  have d: "distinct [0::nat, 1, 2]" by simp
  have b: "castToStringBounded exampleDecimalStrings [0, 1, 2] exampleDecimals 18 2"
    by (simp add: castToStringBounded_def ex_strings)
  have n: "\<not> isInline exampleDecimalStrings (maxStringViewSize exampleDecimalStrings 18 2)"
    by (simp add: isInline_def ex_strings)
  have bytes: "nonInlineBytes exampleDecimalStrings exampleDecimals 2 20 [0, 1, 2] = 18"
    by (simp add: nonInlineBytes_def isInline_def ex_strings)
  have e: "bufferSize (stringBuffer (emptyStringVector 0)) = 0" "written (emptyStringVector 0) = []"
    by (simp_all add: emptyStringVector_def)
  show ?thesis
    using decimal_to_varchar_arena[OF d b, where b = False and ctx = "emptyCtx True"
        and initial = "emptyStringVector 0"] n d b bytes e
    by (auto simp: ex_strings)
qed

section \<open>Expression compiler: metadata, casts and constant folding\<close>

lemma computeOwnMetadata_other: "q \<noteq> p \<Longrightarrow> computeOwnMetadata h p q = h q"
  by (simp add: computeOwnMetadata_def Let_def)

lemma computeOwnMetadata_fields:
  "node (computeOwnMetadata h p q) = node (h q)"
  "exprType (computeOwnMetadata h p q) = exprType (h q)"
  "inputs (computeOwnMetadata h p q) = inputs (h q)"
  "vectorFunctionDeterministic (computeOwnMetadata h p q) = vectorFunctionDeterministic (h q)"
  "isMultiplyReferenced (computeOwnMetadata h p q) = isMultiplyReferenced (h q)"
  "defaultNullRowsSkipped (computeOwnMetadata h p q) = defaultNullRowsSkipped (h q)"
  by (simp_all add: computeOwnMetadata_def Let_def)

lemma fold_computeOwnMetadata_fields:
  "node (fold (\<lambda>input h'. computeOwnMetadata h' input) ps h q) = node (h q)
   \<and> exprType (fold (\<lambda>input h'. computeOwnMetadata h' input) ps h q) = exprType (h q)
   \<and> inputs (fold (\<lambda>input h'. computeOwnMetadata h' input) ps h q) = inputs (h q)
   \<and> vectorFunctionDeterministic (fold (\<lambda>input h'. computeOwnMetadata h' input) ps h q)
       = vectorFunctionDeterministic (h q)
   \<and> isMultiplyReferenced (fold (\<lambda>input h'. computeOwnMetadata h' input) ps h q) = isMultiplyReferenced (h q)
   \<and> defaultNullRowsSkipped (fold (\<lambda>input h'. computeOwnMetadata h' input) ps h q)
       = defaultNullRowsSkipped (h q)"
  by (induction ps arbitrary: h) (simp_all add: computeOwnMetadata_fields)

lemma computeMetadata_fields:
  "node (computeMetadata h p q) = node (h q)"
  "exprType (computeMetadata h p q) = exprType (h q)"
  "inputs (computeMetadata h p q) = inputs (h q)"
  "vectorFunctionDeterministic (computeMetadata h p q) = vectorFunctionDeterministic (h q)"
  "isMultiplyReferenced (computeMetadata h p q) = isMultiplyReferenced (h q)"
  "defaultNullRowsSkipped (computeMetadata h p q) = defaultNullRowsSkipped (h q)"
  by (simp_all add: computeMetadata_def computeOwnMetadata_fields fold_computeOwnMetadata_fields)

lemma computeMetadata_isConstant: "isConstant (computeMetadata h p q) = isConstant (h q)"
  by (simp add: computeMetadata_fields)

lemma computeMetadata_computed: "metaDataComputed (computeMetadata h p p)"
  by (simp add: computeMetadata_def computeOwnMetadata_def Let_def)

lemma fold_computeOwnMetadata_other:
  "p \<notin> set ps \<Longrightarrow> fold (\<lambda>input h'. computeOwnMetadata h' input) ps h p = h p"
  by (induction ps arbitrary: h) (simp_all add: computeOwnMetadata_other)

lemma computeMetadata_fresh:
  assumes "\<not> metaDataComputed (h p)" "p \<notin> set (inputs (h p))"
  shows "isConstantExpr (computeMetadata h p p)
           = (isDeterministic (computeMetadata h p p)
              \<and> list_all (\<lambda>i. isConstant (h i)) (inputs (h p)))"
proof -
  define h' where "h' = fold (\<lambda>input h'. computeOwnMetadata h' input) (inputs (h p)) h"
  have same: "h' p = h p"
    unfolding h'_def by (rule fold_computeOwnMetadata_other[OF assms(2)])
  have const: "\<And>i. isConstant (h' i) = isConstant (h i)"
    unfolding h'_def by (simp add: fold_computeOwnMetadata_fields)
  have "computeMetadata h p = computeOwnMetadata h' p"
    using assms(1) by (simp add: computeMetadata_def h'_def)
  then show ?thesis
    using assms(1) same const by (auto simp: computeOwnMetadata_def Let_def)
qed

lemmas compile_simps = compileExpressions_def collectFlatteningCandidates_def shouldFlatten_def kAnd_def
  kOr_def allInputTypesEquivalent_def equivalent_def getAlreadyCompiled_def initialState_def newScope_def
  allocate_def makeExpr_def isInputColumn_def captureFieldReference_def finishCompile_def
  computeMetadata_def computeOwnMetadata_def compileCall_def compileCast_def getSpecialForm_def
  constructSpecialForm_def getTypes_def getConstantInputs_def tryFoldIfConstant_def applyEvalEffects_def
  clear_def reuseCompiled_def addToReset_def clearMetaData_def setMultiplyReferenced_def finishLambda_def
  addCapture_def kRowConstructor_def

lemmas example_simps = exampleRegistry_def exampleMetadata_def exampleEval_def exampleExprSet_def
  exampleState_def callOnConstants_def callExample_def intConstant_def column_def boolType_def
  bigintType_def andExample_def andOrExample_def withMetadata_def foldEvaluation_def afterEvaluation_def




lemma finishCompile_folding:
  assumes "enableConstantFolding" "\<not> isConstant (heap s result)"
  shows "finishCompile reg enableConstantFolding expr (Some result) s =
     (case tryFoldIfConstant reg result (withMetadata s result) of
        Inl e \<Rightarrow> Inl e
      | Inr (compiled, s2) \<Rightarrow>
          Inr (compiled, s2\<lparr>exprSet := clear (exprSet s2),
                            scope := (scope s2)\<lparr>visited := (visited (scope s2))(expr := Some compiled)\<rparr>\<rparr>))"
  using assms
  by (auto simp: finishCompile_def withMetadata_def Let_def computeMetadata_fields split: sum.splits)

lemma tryFold_value:
  assumes "isConstantExpr (heap s1 result)" "execCtx (exprSet s1)"
    "outcome (evalOneRow reg (heap s1) result) = Inr v"
  shows "tryFoldIfConstant reg result s1 =
     Inr (allocate
            ((makeExpr (ConstantExpr v) (exprType (heap s1 result)) [] True)
               \<lparr>defaultNullRowsSkipped :=
                  (defaultNullRowsSkipped (heap (applyEvalEffects (evalOneRow reg (heap s1) result) s1) result)
                   \<or> list_ex (\<lambda>input. defaultNullRowsSkipped
                                  (heap (applyEvalEffects (evalOneRow reg (heap s1) result) s1) input))
                         (inputs (heap s1 result)))\<rparr>)
            (applyEvalEffects (evalOneRow reg (heap s1) result) s1))"
  using assms
  by (auto simp: tryFoldIfConstant_def Let_def applyEvalEffects_def makeExpr_def)



lemma tryFold_not_attempted:
  assumes "\<not> (isConstantExpr (heap s1 result) \<and> execCtx (exprSet s1))"
  shows "tryFoldIfConstant reg result s1 = Inr (result, s1)"
  using assms by (auto simp: tryFoldIfConstant_def)

text \<open>
  C1 (amended). With constant folding enabled, for a built node that is not already a
  constant, whose metadata says that it is deterministic with constant inputs
  (\<^verbatim>\<open>isConstantExpr\<close>): if the \<^verbatim>\<open>ExprSet\<close> has an execution context and the evaluation of
  the node over the one-row batch returns a value, the compiler returns a new
  \<^verbatim>\<open>ConstantExpr\<close> that holds this value, has the type of the node, and has
  \<^verbatim>\<open>defaultNullRowsSkipped\<close> set exactly when the node or one of its inputs has it set after
  the evaluation; the constant is entered in the table of the scope and the evaluation
  state of the \<^verbatim>\<open>ExprSet\<close> is cleared. For a node whose metadata was not computed before,
  \<^verbatim>\<open>isConstantExpr\<close> says that the node is deterministic and all its inputs are constants.
\<close>

theorem constant_folding:
  assumes ecf: "enableConstantFolding"
    and nc: "\<not> isConstant (heap s result)"
    and ce: "isConstantExpr (heap (withMetadata s result) result)"
    and ctx: "execCtx (exprSet s)"
    and ev: "outcome (foldEvaluation reg s result) = Inr v"
  shows "(\<exists>s'. finishCompile reg enableConstantFolding expr (Some result) s = Inr (nextPtr s, s')
      \<and> node (heap s' (nextPtr s)) = ConstantExpr v
      \<and> exprType (heap s' (nextPtr s)) = exprType (heap s result)
      \<and> defaultNullRowsSkipped (heap s' (nextPtr s))
          = (defaultNullRowsSkipped (heap (afterEvaluation reg s result) result)
             \<or> list_ex (\<lambda>input. defaultNullRowsSkipped (heap (afterEvaluation reg s result) input))
                   (inputs (heap s result)))
      \<and> visited (scope s') expr = Some (nextPtr s)
      \<and> memoizingExprs (exprSet s') = [])
   \<and> (\<not> metaDataComputed (heap s result) \<and> result \<notin> set (inputs (heap s result)) \<longrightarrow>
        isConstantExpr (heap (withMetadata s result) result)
          = (isDeterministic (heap (withMetadata s result) result)
             \<and> list_all (\<lambda>i. isConstant (heap s i)) (inputs (heap s result))))"
proof -
  let ?s1 = "withMetadata s result"
  have ctx1: "execCtx (exprSet ?s1)" using ctx by (simp add: withMetadata_def)
  have ev1: "outcome (evalOneRow reg (heap ?s1) result) = Inr v"
    using ev by (simp add: foldEvaluation_def)
  have f: "finishCompile reg enableConstantFolding expr (Some result) s =
     (case tryFoldIfConstant reg result ?s1 of
        Inl e \<Rightarrow> Inl e
      | Inr (compiled, s2) \<Rightarrow>
          Inr (compiled, s2\<lparr>exprSet := clear (exprSet s2),
                            scope := (scope s2)\<lparr>visited := (visited (scope s2))(expr := Some compiled)\<rparr>\<rparr>))"
    by (rule finishCompile_folding[OF ecf nc])
  have first: "\<exists>s'. finishCompile reg enableConstantFolding expr (Some result) s = Inr (nextPtr s, s')
      \<and> node (heap s' (nextPtr s)) = ConstantExpr v
      \<and> exprType (heap s' (nextPtr s)) = exprType (heap s result)
      \<and> defaultNullRowsSkipped (heap s' (nextPtr s))
          = (defaultNullRowsSkipped (heap (afterEvaluation reg s result) result)
             \<or> list_ex (\<lambda>input. defaultNullRowsSkipped (heap (afterEvaluation reg s result) input))
                   (inputs (heap s result)))
      \<and> visited (scope s') expr = Some (nextPtr s)
      \<and> memoizingExprs (exprSet s') = []"
    unfolding f tryFold_value[OF ce ctx1 ev1]
    by (simp add: allocate_def afterEvaluation_def foldEvaluation_def applyEvalEffects_def
        withMetadata_def makeExpr_def clear_def computeMetadata_fields)
  have second: "\<not> metaDataComputed (heap s result) \<and> result \<notin> set (inputs (heap s result)) \<longrightarrow>
        isConstantExpr (heap (withMetadata s result) result)
          = (isDeterministic (heap (withMetadata s result) result)
             \<and> list_all (\<lambda>i. isConstant (heap s i)) (inputs (heap s result)))"
    using computeMetadata_fresh[of "heap s" result] by (simp add: withMetadata_def)
  show ?thesis by (rule conjI[OF first second])
qed

text \<open>
  Witness for C1: \<^verbatim>\<open>plus(1, 2)\<close> built at address 3 folds to the constant 3 at address 4,
  in the folding step and in the whole compilation.
\<close>

theorem constant_folding_witness:
  "\<not> isConstant (heap (exampleState (callOnConstants ''plus'' 1 2) True) 3)
   \<and> isConstantExpr (heap (withMetadata (exampleState (callOnConstants ''plus'' 1 2) True) 3) 3)
   \<and> execCtx (exprSet (exampleState (callOnConstants ''plus'' 1 2) True))
   \<and> outcome (foldEvaluation exampleRegistry (exampleState (callOnConstants ''plus'' 1 2) True) 3)
       = Inr (IntVariant 3)
   \<and> (\<exists>s'. finishCompile exampleRegistry True (callExample ''plus'' 1 2) (Some 3)
              (exampleState (callOnConstants ''plus'' 1 2) True) = Inr (4, s')
          \<and> node (heap s' 4) = ConstantExpr (IntVariant 3)
          \<and> \<not> defaultNullRowsSkipped (heap s' 4)
          \<and> visited (scope s') (callExample ''plus'' 1 2) = Some 4
          \<and> memoizingExprs (exprSet s') = [])
   \<and> (case compileExpressions 2 exampleRegistry [callExample ''plus'' 1 2] (exampleExprSet True) True of
         Some (Inr (ps, s)) \<Rightarrow> ps = [4] \<and> node (heap s 4) = ConstantExpr (IntVariant 3)
       | _ \<Rightarrow> False)"
proof -
  let ?s = "exampleState (callOnConstants ''plus'' 1 2) True"
  have h1: "\<not> isConstant (heap ?s 3)" by (simp add: example_simps makeExpr_def)
  have h2: "isConstantExpr (heap (withMetadata ?s 3) 3)"
    by (simp add: example_simps compile_simps)
  have h3: "execCtx (exprSet ?s)" by (simp add: example_simps)
  have h4: "outcome (foldEvaluation exampleRegistry ?s 3) = Inr (IntVariant 3)"
    by (simp add: example_simps compile_simps)
  have n: "nextPtr ?s = 4" by (simp add: example_simps)
  have d: "\<not> defaultNullRowsSkipped (heap (afterEvaluation exampleRegistry ?s 3) 3)"
    "\<not> list_ex (\<lambda>input. defaultNullRowsSkipped (heap (afterEvaluation exampleRegistry ?s 3) input))
         (inputs (heap ?s 3))"
    by (simp_all add: example_simps compile_simps)
  have c: "\<exists>s'. finishCompile exampleRegistry True (callExample ''plus'' 1 2) (Some 3) ?s = Inr (4, s')
          \<and> node (heap s' 4) = ConstantExpr (IntVariant 3)
          \<and> \<not> defaultNullRowsSkipped (heap s' 4)
          \<and> visited (scope s') (callExample ''plus'' 1 2) = Some 4
          \<and> memoizingExprs (exprSet s') = []"
    using constant_folding[where enableConstantFolding = True and s = ?s and result = 3
        and reg = exampleRegistry and v = "IntVariant 3" and expr = "callExample ''plus'' 1 2",
        OF TrueI h1 h2 h3 h4] d
    unfolding n by blast
  have full: "case compileExpressions 2 exampleRegistry [callExample ''plus'' 1 2] (exampleExprSet True) True of
         Some (Inr (ps, s)) \<Rightarrow> ps = [4] \<and> node (heap s 4) = ConstantExpr (IntVariant 3)
       | _ \<Rightarrow> False"
    by (simp add: example_simps compile_simps eval_nat_numeral)
  show ?thesis using h1 h2 h3 h4 c full by blast
qed

text \<open>
  Counterexample to C1 as stated: \<^verbatim>\<open>divide(1, 0)\<close> is deterministic with constant inputs
  and is compiled with folding enabled, yet the compiler returns the \<^verbatim>\<open>divide\<close> node and
  no constant, because the evaluation throws a user error; and \<^verbatim>\<open>plus(1, 2)\<close> is returned
  unfolded when the \<^verbatim>\<open>ExprSet\<close> has no execution context.
\<close>

theorem constant_folding_counterexample:
  "(case compileExpressions 2 exampleRegistry [callExample ''divide'' 1 0] (exampleExprSet True) True of
      Some (Inr (ps, s)) \<Rightarrow>
        ps = [3] \<and> node (heap s 3) = FunctionExpr ''divide'' \<and> isDeterministic (heap s 3)
        \<and> list_all (\<lambda>i. isConstant (heap s i)) (inputs (heap s 3))
    | _ \<Rightarrow> False)
   \<and> (case compileExpressions 2 exampleRegistry [callExample ''plus'' 1 2] (exampleExprSet False) True of
      Some (Inr (ps, s)) \<Rightarrow>
        ps = [3] \<and> node (heap s 3) = FunctionExpr ''plus'' \<and> isDeterministic (heap s 3)
        \<and> list_all (\<lambda>i. isConstant (heap s i)) (inputs (heap s 3))
    | _ \<Rightarrow> False)"
  by (simp add: example_simps compile_simps eval_nat_numeral)





section \<open>Expression compiler: flattening proofs\<close>

lemma flattenInput_append:
  "flattenInput input flattenCall flat = flat @ flattenInput input flattenCall []"
proof (induction input flattenCall flat rule: flattenInput.induct)
  case (1 t n ins flattenCall flat)
  show ?case
  proof (cases "n = flattenCall \<and> allInputTypesEquivalent (CallTypedExpr t n ins)")
    case True
    have step: "\<And>acc. set xs \<subseteq> set ins \<Longrightarrow>
        fold (\<lambda>child acc. flattenInput child flattenCall acc) xs acc
          = acc @ fold (\<lambda>child acc. flattenInput child flattenCall acc) xs []" for xs
    proof (induction xs)
      case Nil
      then show ?case by simp
    next
      case (Cons x xs)
      have x: "x \<in> set ins" using Cons.prems by simp
      have rest: "set xs \<subseteq> set ins" using Cons.prems by simp
      have a: "flattenInput x flattenCall acc = acc @ flattenInput x flattenCall []" for acc
        using "1.IH"[OF True x] .
      show ?case
        using Cons.IH[OF rest, of "flattenInput x flattenCall acc"]
          Cons.IH[OF rest, of "flattenInput x flattenCall []"] a[of acc]
        by simp
    qed
    show ?thesis using True step[of ins flat] by simp
  next
    case False
    then show ?thesis by auto
  qed
qed simp_all

lemma fold_flattenInput:
  "fold (\<lambda>child acc. flattenInput child flattenCall acc) ins flat
     = flat @ concat (map (\<lambda>child. flattenInput child flattenCall []) ins)"
proof (induction ins arbitrary: flat)
  case Nil
  then show ?case by simp
next
  case (Cons x xs)
  show ?case
    using Cons[of "flattenInput x flattenCall flat"] flattenInput_append[of x flattenCall flat]
    by simp
qed

lemma flattenInput_call:
  assumes "isCall input flattenCall \<and> allInputTypesEquivalent input"
  shows "flattenInput input flattenCall []
           = concat (map (\<lambda>child. flattenInput child flattenCall []) (inputsOf input))"
  using assms by (cases input) (simp_all add: fold_flattenInput)

lemma flattenInput_stop:
  assumes "\<not> (isCall input flattenCall \<and> allInputTypesEquivalent input)"
  shows "flattenInput input flattenCall [] = [input]"
  using assms by (cases input) auto

lemma compileFlat_append:
  "compileFlat n reg fc ecf (xs @ ys) s =
     (case compileFlat n reg fc ecf xs s of
        None \<Rightarrow> None
      | Some (Inl e) \<Rightarrow> Some (Inl e)
      | Some (Inr (ps, s1)) \<Rightarrow>
          (case compileFlat n reg fc ecf ys s1 of
             None \<Rightarrow> None
           | Some (Inl e) \<Rightarrow> Some (Inl e)
           | Some (Inr (qs, s2)) \<Rightarrow> Some (Inr (ps @ qs, s2))))"
proof (induction xs arbitrary: s)
  case Nil
  show ?case by (simp split: option.splits sum.splits)
next
  case (Cons x xs)
  show ?case
    by (simp add: Cons split: option.splits sum.splits prod.splits)
qed

lemma compileInputs_flatten:
  assumes "list_all (\<lambda>input. \<not> isInputKind input) ins"
  shows "compileInputs n reg fc ecf expr (Some flattenCall) ins s
           = compileFlat n reg fc ecf (concat (map (\<lambda>input. flattenInput input flattenCall []) ins)) s"
  using assms
proof (induction ins arbitrary: s)
  case Nil
  show ?case by simp
next
  case (Cons x xs)
  then have x: "\<not> isInputKind x" and xs: "list_all (\<lambda>input. \<not> isInputKind input) xs" by simp_all
  show ?case
    using x by (simp add: Cons.IH[OF xs] compileFlat_append split: option.splits sum.splits prod.splits)
qed

lemma compileInputs_plain:
  assumes "list_all (\<lambda>input. \<not> isInputKind input) ins"
  shows "compileInputs n reg fc ecf expr None ins s = compileFlat n reg fc ecf ins s"
  using assms
proof (induction ins arbitrary: s)
  case Nil
  show ?case by simp
next
  case (Cons x xs)
  then have x: "\<not> isInputKind x" and xs: "list_all (\<lambda>input. \<not> isInputKind input) xs" by simp_all
  show ?case
    using x by (simp add: Cons.IH[OF xs] split: option.splits sum.splits prod.splits)
qed


text \<open>
  C6. For a call to \<^verbatim>\<open>and\<close>, to \<^verbatim>\<open>or\<close>, or to a flattening candidate whose inputs are
  mutually type-equivalent, none of whose inputs is the input row: \<^verbatim>\<open>shouldFlatten\<close> returns
  the name of the call, and \<^verbatim>\<open>compileInputs\<close> compiles, in order and in the same scope, the
  concatenation of the flattened inputs. The flattening of an input that is a call of
  the same name with mutually type-equivalent inputs is the concatenation, in order, of
  the flattenings of its inputs; the flattening of any other input is that input alone.
\<close>

theorem flattening:
  assumes call: "expr = CallTypedExpr t name ins"
    and fl: "name = kAnd \<or> name = kOr \<or> (name \<in> flatteningCandidates \<and> allInputTypesEquivalent expr)"
    and noInput: "list_all (\<lambda>input. \<not> isInputKind input) ins"
  shows "shouldFlatten expr flatteningCandidates = Some name
    \<and> compileInputs n reg flatteningCandidates enableConstantFolding expr
          (shouldFlatten expr flatteningCandidates) ins s
        = compileFlat n reg flatteningCandidates enableConstantFolding
            (concat (map (\<lambda>input. flattenInput input name []) ins)) s
    \<and> (\<forall>input.
          (isCall input name \<and> allInputTypesEquivalent input \<longrightarrow>
             flattenInput input name [] = concat (map (\<lambda>child. flattenInput child name []) (inputsOf input)))
          \<and> (\<not> (isCall input name \<and> allInputTypesEquivalent input) \<longrightarrow>
             flattenInput input name [] = [input]))"
proof -
  have sf: "shouldFlatten expr flatteningCandidates = Some name"
    using call fl by (auto simp: shouldFlatten_def)
  have ci: "compileInputs n reg flatteningCandidates enableConstantFolding expr
          (shouldFlatten expr flatteningCandidates) ins s
        = compileFlat n reg flatteningCandidates enableConstantFolding
            (concat (map (\<lambda>input. flattenInput input name []) ins)) s"
    unfolding sf by (rule compileInputs_flatten[OF noInput])
  show ?thesis
    using sf ci flattenInput_call flattenInput_stop by blast
qed

text \<open>
  Witness for C6: \<^verbatim>\<open>a and (b and (c or d))\<close> compiles its inputs as the list of
  \<^verbatim>\<open>a\<close>, \<^verbatim>\<open>b\<close> and \<^verbatim>\<open>c or d\<close>; \<^verbatim>\<open>a and (b and c)\<close> compiles to one \<^verbatim>\<open>and\<close> over the
  three field references; \<^verbatim>\<open>c or d\<close> stays a single input of the \<^verbatim>\<open>and\<close>; and the
  \<^verbatim>\<open>concat\<close> of the source comment is flattened up to the call whose inputs differ in type.
\<close>

theorem flattening_witness:
  "andOrExample = CallTypedExpr boolType ''and'' (inputsOf andOrExample)
   \<and> (''and'' = kAnd \<or> ''and'' = kOr
        \<or> (''and'' \<in> {} \<and> allInputTypesEquivalent andOrExample))
   \<and> list_all (\<lambda>input. \<not> isInputKind input) (inputsOf andOrExample)
   \<and> compileInputs 2 exampleRegistry {} False andOrExample (shouldFlatten andOrExample {})
        (inputsOf andOrExample) (initialState (exampleExprSet True))
      = compileFlat 2 exampleRegistry {} False
          [column boolType ''a'', column boolType ''b'',
           CallTypedExpr boolType ''or'' [column boolType ''c'', column boolType ''d'']]
          (initialState (exampleExprSet True))
   \<and> (case compileExpressions 3 exampleRegistry [andExample] (exampleExprSet True) False of
         Some (Inr (ps, s)) \<Rightarrow>
           ps = [4] \<and> node (heap s 4) = SpecialForm ''and'' \<and> inputs (heap s 4) = [1, 2, 3]
           \<and> map (\<lambda>p. node (heap s p)) [1, 2, 3]
               = [FieldReference (FieldName ''a''), FieldReference (FieldName ''b''),
                  FieldReference (FieldName ''c'')]
       | _ \<Rightarrow> False)
   \<and> (case compileExpressions 3 exampleRegistry [andOrExample] (exampleExprSet True) False of
         Some (Inr (ps, s)) \<Rightarrow>
           ps = [6] \<and> node (heap s 6) = SpecialForm ''and'' \<and> inputs (heap s 6) = [1, 2, 5]
           \<and> node (heap s 5) = SpecialForm ''or'' \<and> inputs (heap s 5) = [3, 4]
       | _ \<Rightarrow> False)
   \<and> flattenInput (CallTypedExpr arrayType ''concat'' [column arrayType ''array2'', innerConcat])
        ''concat'' []
      = [column arrayType ''array2'', innerConcat]
   \<and> (case compileExpressions 3 exampleRegistry [concatExample] (exampleExprSet True) False of
         Some (Inr (ps, s)) \<Rightarrow>
           ps = [5] \<and> node (heap s 5) = FunctionExpr ''concat'' \<and> inputs (heap s 5) = [1, 2, 4]
           \<and> node (heap s 4) = FunctionExpr ''concat'' \<and> inputs (heap s 4) = [2, 3]
       | _ \<Rightarrow> False)"
proof -
  have a: "andOrExample = CallTypedExpr boolType ''and'' (inputsOf andOrExample)"
    by (simp add: andOrExample_def)
  have b: "''and'' = kAnd \<or> ''and'' = kOr \<or> (''and'' \<in> {} \<and> allInputTypesEquivalent andOrExample)"
    by (simp add: kAnd_def)
  have c: "list_all (\<lambda>input. \<not> isInputKind input) (inputsOf andOrExample)"
    by (simp add: andOrExample_def column_def)
  have fl: "concat (map (\<lambda>input. flattenInput input ''and'' []) (inputsOf andOrExample))
      = [column boolType ''a'', column boolType ''b'',
         CallTypedExpr boolType ''or'' [column boolType ''c'', column boolType ''d'']]"
    by (simp add: andOrExample_def column_def allInputTypesEquivalent_def equivalent_def)
  have d: "compileInputs 2 exampleRegistry {} False andOrExample (shouldFlatten andOrExample {})
        (inputsOf andOrExample) (initialState (exampleExprSet True))
      = compileFlat 2 exampleRegistry {} False
          [column boolType ''a'', column boolType ''b'',
           CallTypedExpr boolType ''or'' [column boolType ''c'', column boolType ''d'']]
          (initialState (exampleExprSet True))"
    using flattening[OF a b c, where n = 2 and reg = exampleRegistry and enableConstantFolding = False
        and s = "initialState (exampleExprSet True)"]
    unfolding fl by blast
  have e: "case compileExpressions 3 exampleRegistry [andExample] (exampleExprSet True) False of
         Some (Inr (ps, s)) \<Rightarrow>
           ps = [4] \<and> node (heap s 4) = SpecialForm ''and'' \<and> inputs (heap s 4) = [1, 2, 3]
           \<and> map (\<lambda>p. node (heap s p)) [1, 2, 3]
               = [FieldReference (FieldName ''a''), FieldReference (FieldName ''b''),
                  FieldReference (FieldName ''c'')]
       | _ \<Rightarrow> False"
    by (simp add: example_simps compile_simps eval_nat_numeral)
  have f: "case compileExpressions 3 exampleRegistry [andOrExample] (exampleExprSet True) False of
         Some (Inr (ps, s)) \<Rightarrow>
           ps = [6] \<and> node (heap s 6) = SpecialForm ''and'' \<and> inputs (heap s 6) = [1, 2, 5]
           \<and> node (heap s 5) = SpecialForm ''or'' \<and> inputs (heap s 5) = [3, 4]
       | _ \<Rightarrow> False"
    by (simp add: example_simps compile_simps eval_nat_numeral)
  have g: "flattenInput (CallTypedExpr arrayType ''concat'' [column arrayType ''array2'', innerConcat])
        ''concat'' []
      = [column arrayType ''array2'', innerConcat]"
    by (simp add: innerConcat_def column_def allInputTypesEquivalent_def equivalent_def arrayType_def
        bigintType_def)
  have h: "case compileExpressions 3 exampleRegistry [concatExample] (exampleExprSet True) False of
         Some (Inr (ps, s)) \<Rightarrow>
           ps = [5] \<and> node (heap s 5) = FunctionExpr ''concat'' \<and> inputs (heap s 5) = [1, 2, 4]
           \<and> node (heap s 4) = FunctionExpr ''concat'' \<and> inputs (heap s 4) = [2, 3]
       | _ \<Rightarrow> False"
    by (simp add: example_simps compile_simps eval_nat_numeral concatExample_def innerConcat_def
        arrayType_def)
  show ?thesis by (intro conjI a b c d e f g h)
qed

section \<open>Expression compiler: a compilation extends the state\<close>

text \<open>
  Every step of a compilation keeps the chain of scopes in shape: the formal parameters
  of each scope and the entries of its table stay, a node marked as multiply referenced
  is registered for the reset, and the capture lists stay closed. The proof follows the
  functions of the compiler, innermost first, and then the bound on the depth.
\<close>

lemma scopeExtends_refl: "scopeExtends a a"
  by (simp add: scopeExtends_def)

lemma scopeExtends_trans: "scopeExtends a b \<Longrightarrow> scopeExtends b c \<Longrightarrow> scopeExtends a c"
  by (simp add: scopeExtends_def)

lemma extends_refl: "extends s s"
  by (simp add: extends_def list_all2_refl scopeExtends_refl)

lemma extends_trans: "extends s t \<Longrightarrow> extends t u \<Longrightarrow> extends s u"
  unfolding extends_def
  using list_all2_trans[of scopeExtends scopeExtends scopeExtends] scopeExtends_trans
  by blast

lemma extends_heap_only:
  assumes "scope s' = scope s" "parents s' = parents s" "resetRegistered s \<longrightarrow> resetRegistered s'"
  shows "extends s s'"
  using assms by (simp add: extends_def scopeChain_def list_all2_refl scopeExtends_refl)

lemma allocate_extends:
  assumes "\<not> isMultiplyReferenced e" "allocate e s = (p, s')"
  shows "extends s s'"
proof (rule extends_heap_only)
  show "scope s' = scope s" "parents s' = parents s" using assms(2) by (auto simp: allocate_def)
  show "resetRegistered s \<longrightarrow> resetRegistered s'"
    using assms by (auto simp: allocate_def resetRegistered_def split: if_splits)
qed

lemma makeExpr_single: "\<not> isMultiplyReferenced (makeExpr n t ins det)"
  by (simp add: makeExpr_def)

lemma constructSpecialForm_extends:
  "constructSpecialForm name t ins s = (p, s') \<Longrightarrow> extends s s'"
  unfolding constructSpecialForm_def by (rule allocate_extends[OF makeExpr_single])

lemma getSpecialForm_extends:
  "getSpecialForm reg name t ins s = (po, s') \<Longrightarrow> extends s s'"
  by (auto simp: getSpecialForm_def extends_refl split: if_splits prod.splits
      dest: constructSpecialForm_extends)

lemma compileCall_extends:
  "compileCall reg t name ins s = Inr (p, s') \<Longrightarrow> extends s s'"
  by (auto simp: compileCall_def Let_def split: if_splits option.splits prod.splits
      dest: constructSpecialForm_extends allocate_extends[OF makeExpr_single])

lemma compileCast_extends:
  "compileCast reg t isTryCast ins s = Inr (po, s') \<Longrightarrow> extends s s'"
  by (auto simp: compileCast_def extends_refl split: list.splits if_splits
      dest: getSpecialForm_extends)

lemma computeMetadata_reset:
  "resetRegistered s \<Longrightarrow> resetRegistered (s\<lparr>heap := computeMetadata (heap s) p\<rparr>)"
  by (simp add: resetRegistered_def computeMetadata_fields)

lemma reuseCompiled_extends: "extends s (reuseCompiled p s)"
proof (rule extends_heap_only)
  show "scope (reuseCompiled p s) = scope s" "parents (reuseCompiled p s) = parents s"
    by (simp_all add: reuseCompiled_def)
  show "resetRegistered s \<longrightarrow> resetRegistered (reuseCompiled p s)"
    by (auto simp: reuseCompiled_def resetRegistered_def addToReset_def computeMetadata_fields
        clearMetaData_def setMultiplyReferenced_def)
qed


lemma capturesClosed_cong:
  "map (\<lambda>sc. (locals sc, capture sc)) xs = map (\<lambda>sc. (locals sc, capture sc)) ys
     \<Longrightarrow> capturesClosed xs = capturesClosed ys"
proof (induction xs arbitrary: ys rule: capturesClosed.induct)
  case (1 sc parent grandparent rest)
  then obtain sc' parent' grandparent' rest' where ys: "ys = sc' # parent' # grandparent' # rest'"
    by (auto simp: map_eq_Cons_conv)
  have "capturesClosed (parent # grandparent # rest) = capturesClosed (parent' # grandparent' # rest')"
    using 1 ys by (intro "1.IH") simp
  then show ?case using 1(2) ys by simp
qed (auto simp: map_eq_Cons_conv)

lemma capturesClosed_tl: "capturesClosed (sc # rest) \<Longrightarrow> capturesClosed rest"
  by (cases "(sc # rest)" rule: capturesClosed.cases) auto

lemma extends_scope_only:
  assumes "heap s' = heap s" "exprSet s' = exprSet s"
    and "list_all2 (\<lambda>a b. locals a = locals b \<and> capture a = capture b
            \<and> (\<forall>e p. visited a e = Some p \<longrightarrow> visited b e = Some p)) (scopeChain s) (scopeChain s')"
  shows "extends s s'"
proof -
  have "list_all2 scopeExtends (scopeChain s) (scopeChain s')"
    using assms(3) by (rule list_all2_mono) (simp add: scopeExtends_def)
  moreover have "map (\<lambda>sc. (locals sc, capture sc)) (scopeChain s) = map (\<lambda>sc. (locals sc, capture sc)) (scopeChain s')"
    using assms(3) by (induction rule: list_all2_induct) auto
  then have "capturesClosed (scopeChain s) = capturesClosed (scopeChain s')"
    by (rule capturesClosed_cong)
  ultimately show ?thesis
    using assms(1,2) by (simp add: extends_def resetRegistered_def)
qed

lemma rewritten_push_extends:
  "extends s (s\<lparr>scope := (scope s)\<lparr>rewrittenExpressions := rs\<rparr>\<rparr>)"
  by (rule extends_scope_only) (simp_all add: scopeChain_def list_all2_refl)

lemma captureChain_length: "length (captureChain name r fa scopes) = length scopes"
  by (induction name r fa scopes rule: captureChain.induct) auto

lemma captureChain_scopeExtends:
  "list_all2 scopeExtends scopes (captureChain name r fa scopes)"
  by (induction name r fa scopes rule: captureChain.induct)
     (auto simp: list_all2_refl scopeExtends_refl scopeExtends_def addCapture_def)

lemma captureChain_hd:
  "captureChain name r fa (p # q # rest) = p' # others
     \<Longrightarrow> locals p' = locals p \<and> set (capture p) \<subseteq> set (capture p')
         \<and> (name \<in> set (locals p') \<or> name \<in> set (capture p'))"
  by (auto simp: addCapture_def split: if_splits)

lemma captureChain_closed:
  "capturesClosed scopes \<Longrightarrow> capturesClosed (captureChain name r fa scopes)"
proof (induction name r fa scopes rule: captureChain.induct)
  case (1 name r fa sc parent rest)
  show ?case
  proof (cases "name \<in> set (locals sc) \<or> name \<in> set (capture sc)")
    case True
    then show ?thesis using 1 by simp
  next
    case False
    show ?thesis
    proof (cases rest)
      case Nil
      then show ?thesis using False by simp
    next
      case (Cons grandparent rest')
      have closed: "capturesClosed (parent # rest)" using "1.prems" by (rule capturesClosed_tl)
      have ih: "capturesClosed (captureChain name r fa (parent # rest))"
        using "1.IH"[OF False closed] .
      obtain p' others where eq: "captureChain name r fa (parent # grandparent # rest') = p' # others"
        by (cases "captureChain name r fa (parent # grandparent # rest')") (auto split: if_splits)
      have len: "length (p' # others) = length (parent # grandparent # rest')"
        using captureChain_length[of name r fa "parent # grandparent # rest'"] eq by simp
      then obtain g' rest'' where others: "others = g' # rest''" by (cases others) auto
      note hd = captureChain_hd[OF eq]
      have old: "\<forall>x \<in> set (capture sc). x \<in> set (locals parent) \<or> x \<in> set (capture parent)"
        using "1.prems" Cons by simp
      have "\<forall>x \<in> set (capture (addCapture name r fa sc)). x \<in> set (locals p') \<or> x \<in> set (capture p')"
        using old hd by (auto simp: addCapture_def)
      then show ?thesis using False ih Cons eq others by simp
    qed
  qed
qed simp_all

lemma captureFieldReference_extends: "extends s (captureFieldReference r fa s)"
proof -
  let ?c = "captureChain (field (heap s r)) r fa (scope s # parents s)"
  obtain sc ps where c: "?c = sc # ps"
    using captureChain_length[of "field (heap s r)" r fa "scope s # parents s"] by (cases ?c) auto
  have s': "captureFieldReference r fa s = s\<lparr>scope := sc, parents := ps\<rparr>"
    unfolding captureFieldReference_def c by simp
  have chain: "scopeChain (captureFieldReference r fa s) = ?c"
    unfolding s' scopeChain_def c by simp
  show ?thesis
    unfolding extends_def chain
    using captureChain_scopeExtends[of "scopeChain s" "field (heap s r)" r fa]
      captureChain_closed[of "scopeChain s" "field (heap s r)" r fa]
    by (simp add: scopeChain_def s' resetRegistered_def)
qed

lemma applyEvalEffects_extends: "extends s (applyEvalEffects r s)"
  by (rule extends_heap_only) (auto simp: applyEvalEffects_def resetRegistered_def)

lemma clear_extends: "extends s (s\<lparr>exprSet := clear (exprSet s)\<rparr>)"
  by (rule extends_heap_only) (auto simp: clear_def resetRegistered_def)

lemma extends_marks_only:
  assumes "scope s' = scope s" "parents s' = parents s"
    and "set (toReset (exprSet s)) \<subseteq> set (toReset (exprSet s'))"
    and "\<And>q. isMultiplyReferenced (heap s' q) \<Longrightarrow> isMultiplyReferenced (heap s q)"
  shows "extends s s'"
  using assms by (intro extends_heap_only) (auto simp: resetRegistered_def)

lemma tryFoldIfConstant_extends:
  assumes "tryFoldIfConstant reg p s = Inr (c, s')"
  shows "extends s s'"
proof (rule extends_marks_only)
  show "scope s' = scope s"
    using assms by (auto simp: tryFoldIfConstant_def Let_def allocate_def applyEvalEffects_def
        split: if_splits sum.splits VeloxException.splits)
  show "parents s' = parents s"
    using assms by (auto simp: tryFoldIfConstant_def Let_def allocate_def applyEvalEffects_def
        split: if_splits sum.splits VeloxException.splits)
  show "set (toReset (exprSet s)) \<subseteq> set (toReset (exprSet s'))"
    using assms by (auto simp: tryFoldIfConstant_def Let_def allocate_def applyEvalEffects_def
        split: if_splits sum.splits VeloxException.splits)
  show "\<And>q. isMultiplyReferenced (heap s' q) \<Longrightarrow> isMultiplyReferenced (heap s q)"
    using assms by (auto simp: tryFoldIfConstant_def Let_def allocate_def applyEvalEffects_def makeExpr_def
        split: if_splits sum.splits VeloxException.splits)
qed

lemma visited_update_extends:
  assumes "extends s t" "visited (scope s) expr = None"
  shows "extends s (t\<lparr>scope := (scope t)\<lparr>visited := (visited (scope t))(expr := Some c)\<rparr>\<rparr>)"
proof -
  let ?u = "t\<lparr>scope := (scope t)\<lparr>visited := (visited (scope t))(expr := Some c)\<rparr>\<rparr>"
  have st: "list_all2 scopeExtends (scope s # parents s) (scope t # parents t)"
    using assms(1) by (simp add: extends_def scopeChain_def)
  then have "list_all2 scopeExtends (scopeChain s) (scopeChain ?u)"
    using assms(2) by (auto simp: scopeChain_def scopeExtends_def)
  moreover have "map (\<lambda>sc. (locals sc, capture sc)) (scopeChain t) = map (\<lambda>sc. (locals sc, capture sc)) (scopeChain ?u)"
    by (simp add: scopeChain_def)
  then have "capturesClosed (scopeChain t) = capturesClosed (scopeChain ?u)"
    by (rule capturesClosed_cong)
  moreover have "resetRegistered ?u = resetRegistered t" by (simp add: resetRegistered_def)
  ultimately show ?thesis using assms(1) by (simp add: extends_def)
qed

lemma finishCompile_extends:
  assumes "extends s t" "visited (scope s) expr = None"
    and "finishCompile reg ecf expr result t = Inr (c, u)"
  shows "extends s u"
proof -
  obtain r where r: "result = Some r" using assms(3) by (cases result) (auto simp: finishCompile_def)
  let ?t1 = "t\<lparr>heap := computeMetadata (heap t) r\<rparr>"
  have t1: "extends t ?t1"
    by (rule extends_heap_only) (auto simp: resetRegistered_def computeMetadata_fields)
  obtain t3 where t3: "extends ?t1 t3"
    and u: "u = t3\<lparr>scope := (scope t3)\<lparr>visited := (visited (scope t3))(expr := Some c)\<rparr>\<rparr>"
  proof (cases "ecf \<and> \<not> isConstant (heap ?t1 r)")
    case True
    then obtain t2 where f: "tryFoldIfConstant reg r ?t1 = Inr (c, t2)"
      and u: "u = (t2\<lparr>exprSet := clear (exprSet t2)\<rparr>)\<lparr>scope := (scope t2)\<lparr>visited := (visited (scope t2))(expr := Some c)\<rparr>\<rparr>"
      using assms(3) r by (auto simp: finishCompile_def Let_def split: sum.splits)
    have "extends ?t1 (t2\<lparr>exprSet := clear (exprSet t2)\<rparr>)"
      using tryFoldIfConstant_extends[OF f] clear_extends by (rule extends_trans)
    then show ?thesis using that u by simp
  next
    case False
    then have "u = ?t1\<lparr>scope := (scope ?t1)\<lparr>visited := (visited (scope ?t1))(expr := Some c)\<rparr>\<rparr>"
      using assms(3) r by (auto simp: finishCompile_def Let_def)
    then show ?thesis using that extends_refl by blast
  qed
  have "extends s t3" using assms(1) t1 t3 by (blast intro: extends_trans)
  then show ?thesis unfolding u using assms(2) by (rule visited_update_extends)
qed


lemma captureReferencesOf_extends:
  "captureReferencesOf zs s = (refs, s') \<Longrightarrow> extends s s'"
proof (induction zs arbitrary: s refs s')
  case Nil
  then show ?case by (simp add: extends_refl)
next
  case (Cons z zs)
  obtain expr inner where z: "z = (expr, inner)" by (cases z)
  show ?case
  proof (cases "visited (scope s) expr")
    case (Some reference)
    then obtain refs' where "captureReferencesOf zs s = (refs', s')"
      using Cons.prems z by (auto simp: getAlreadyCompiled_def split: prod.splits)
    then show ?thesis by (rule Cons.IH)
  next
    case None
    obtain reference s1 where a: "allocate (makeExpr (FieldReference (FieldName (field (heap s inner))))
                            (exprType (heap s inner)) [] True) s = (reference, s1)"
      by (simp add: allocate_def)
    let ?s2 = "s1\<lparr>scope := (scope s1)\<lparr>visited := (visited (scope s1))(expr := Some reference)\<rparr>\<rparr>"
    have "extends s s1" using makeExpr_single a by (rule allocate_extends)
    then have e2: "extends s ?s2" using None by (rule visited_update_extends)
    obtain refs' where "captureReferencesOf zs ?s2 = (refs', s')"
      using Cons.prems z None a by (auto simp: getAlreadyCompiled_def split: prod.splits)
    then have "extends ?s2 s'" by (rule Cons.IH)
    with e2 show ?thesis by (rule extends_trans)
  qed
qed

lemma capturesClosed_push: "capturesClosed (newScope names # scopes) = capturesClosed scopes"
proof (cases scopes)
  case Nil
  then show ?thesis by simp
next
  case (Cons a rest)
  then show ?thesis by (cases rest) (simp_all add: newScope_def)
qed

lemma finishLambda_extends:
  assumes "extends (s\<lparr>scope := newScope names, parents := scope s # parents s\<rparr>) s1"
    and "finishLambda signature body s1 = Inr (po, s')"
  shows "extends s s'"
proof -
  let ?pushed = "s\<lparr>scope := newScope names, parents := scope s # parents s\<rparr>"
  have all: "list_all2 scopeExtends (newScope names # scope s # parents s) (scope s1 # parents s1)"
    using assms(1) by (simp add: extends_def scopeChain_def)
  then obtain enclosing rest where ps: "parents s1 = enclosing # rest"
    by (cases "parents s1") auto
  let ?s2 = "s1\<lparr>scope := enclosing, parents := rest\<rparr>"
  have "list_all2 scopeExtends (scopeChain s) (scopeChain ?s2)"
    using all ps by (simp add: scopeChain_def)
  moreover have "resetRegistered s \<longrightarrow> resetRegistered ?s2"
    using assms(1) by (simp add: extends_def resetRegistered_def)
  moreover have "capturesClosed (scopeChain s) \<longrightarrow> capturesClosed (scopeChain ?s2)"
  proof
    assume "capturesClosed (scopeChain s)"
    then have "capturesClosed (scopeChain ?pushed)"
      by (simp add: scopeChain_def capturesClosed_push)
    then have "capturesClosed (scope s1 # enclosing # rest)"
      using assms(1) ps by (simp add: extends_def scopeChain_def)
    then show "capturesClosed (scopeChain ?s2)"
      by (simp add: scopeChain_def capturesClosed_tl)
  qed
  ultimately have e2: "extends s ?s2" by (simp add: extends_def)
  obtain refs s3 where c: "captureReferencesOf (zip (captureFieldAccesses (scope s1)) (captureReferences (scope s1))) ?s2 = (refs, s3)"
    by (cases "captureReferencesOf (zip (captureFieldAccesses (scope s1)) (captureReferences (scope s1))) ?s2")
  have e3: "extends ?s2 s3" using c by (rule captureReferencesOf_extends)
  obtain p where "allocate (makeExpr (LambdaExpr signature refs body)
       (FunctionType (map snd signature) (exprType (heap s3 body))) [] True) s3 = (p, s')"
    using assms(2) ps c by (auto simp: finishLambda_def Let_def split: prod.splits)
  then have "extends s3 s'" using makeExpr_single by (intro allocate_extends)
  with e2 e3 show ?thesis by (blast intro: extends_trans)
qed

lemma compileFlat_extends:
  assumes IH: "\<And>e s p s'. compileExpression n reg fc ecf e s = Some (Inr (p, s')) \<Longrightarrow> extends s s'"
  shows "compileFlat n reg fc ecf ins s = Some (Inr (ps, s')) \<Longrightarrow> extends s s'"
proof (induction ins arbitrary: s ps s')
  case Nil
  then show ?case by (simp add: extends_refl)
next
  case (Cons input rest)
  then obtain p s1 others where 1: "compileExpression n reg fc ecf input s = Some (Inr (p, s1))"
    and 2: "compileFlat n reg fc ecf rest s1 = Some (Inr (others, s'))"
    by (auto split: option.splits sum.splits prod.splits)
  show ?case using IH[OF 1] Cons.IH[OF 2] by (rule extends_trans)
qed

lemma compileInputs_extends:
  assumes IH: "\<And>e s p s'. compileExpression n reg fc ecf e s = Some (Inr (p, s')) \<Longrightarrow> extends s s'"
  shows "compileInputs n reg fc ecf expr fl ins s = Some (Inr (ps, s')) \<Longrightarrow> extends s s'"
proof (induction ins arbitrary: s ps s')
  case Nil
  then show ?case by (simp add: extends_refl)
next
  case (Cons input rest)
  show ?case
  proof (cases "isInputKind input")
    case True
    then have "compileInputs n reg fc ecf expr fl rest s = Some (Inr (ps, s'))"
      using Cons.prems by (auto split: if_splits)
    then show ?thesis by (rule Cons.IH)
  next
    case False
    then obtain compiled s1 others where
      1: "(case fl of Some flattenCall \<Rightarrow> compileFlat n reg fc ecf (flattenInput input flattenCall []) s
            | None \<Rightarrow> (case compileExpression n reg fc ecf input s of None \<Rightarrow> None
                 | Some (Inl e) \<Rightarrow> Some (Inl e) | Some (Inr (p, s1)) \<Rightarrow> Some (Inr ([p], s1))))
          = Some (Inr (compiled, s1))"
      and 2: "compileInputs n reg fc ecf expr fl rest s1 = Some (Inr (others, s'))"
      using Cons.prems by (auto split: option.splits sum.splits prod.splits)
    have "extends s s1"
    proof (cases fl)
      case None
      then obtain p where "compileExpression n reg fc ecf input s = Some (Inr (p, s1))"
        using 1 by (auto split: option.splits sum.splits prod.splits)
      then show ?thesis by (rule IH)
    next
      case (Some flattenCall)
      then have "compileFlat n reg fc ecf (flattenInput input flattenCall []) s = Some (Inr (compiled, s1))"
        using 1 by simp
      then show ?thesis by (elim compileFlat_extends[rotated]) (erule IH)
    qed
    then show ?thesis using Cons.IH[OF 2] by (rule extends_trans)
  qed
qed

lemma compileLambda_extends:
  assumes IH: "\<And>e s p s'. compileExpression n reg fc ecf e s = Some (Inr (p, s')) \<Longrightarrow> extends s s'"
    and "compileLambda n reg fc ecf signature body s = Some (Inr (po, s'))"
  shows "extends s s'"
proof -
  obtain b s1 where 1: "compileExpression n reg fc ecf body
             (s\<lparr>scope := newScope (map fst signature), parents := scope s # parents s\<rparr>) = Some (Inr (b, s1))"
    and 2: "finishLambda signature b s1 = Inr (po, s')"
    using assms(2) by (auto split: option.splits sum.splits prod.splits)
  show ?thesis using IH[OF 1] 2 by (rule finishLambda_extends)
qed


lemma compileRewrittenExpression_extends:
  assumes IH: "\<And>e s p s'. compileExpression n reg fc ecf e s = Some (Inr (p, s')) \<Longrightarrow> extends s s'"
    and c: "compileRewrittenExpression n reg fc ecf expr s = Some (Inr (p, s'))"
  shows "extends s s'"
proof (cases "visited (scope s) expr")
  case (Some q)
  then have "s' = reuseCompiled q s" using c by (auto simp: getAlreadyCompiled_def)
  then show ?thesis by (simp add: reuseCompiled_extends)
next
  case None
  have ins: "\<And>xs ps s1. compileInputs n reg fc ecf expr (shouldFlatten expr fc) xs s = Some (Inr (ps, s1))
      \<Longrightarrow> extends s s1"
    by (elim compileInputs_extends[rotated]) (erule IH)
  have "\<exists>s1 result s2. extends s s1 \<and> extends s1 s2 \<and> finishCompile reg ecf expr result s2 = Inr (p, s')"
  proof (cases expr)
    case (ConstantTypedExpr t v)
    then obtain r s2 where "allocate (makeExpr (ConstantExpr v) t [] True) s = (r, s2)"
      "finishCompile reg ecf expr (Some r) s2 = Inr (p, s')"
      using c None by (auto simp: getAlreadyCompiled_def split: option.splits sum.splits prod.splits)
    then show ?thesis using allocate_extends[OF makeExpr_single] extends_refl by blast
  next
    case (InputTypedExpr t)
    then show ?thesis using c None by (auto simp: getAlreadyCompiled_def)
  next
    case (FieldAccessTypedExpr t name xs)
    then obtain ins' s1 r s2 where 1: "compileInputs n reg fc ecf expr (shouldFlatten expr fc) xs s = Some (Inr (ins', s1))"
      and 2: "allocate (makeExpr (FieldReference (FieldName name)) t ins' True) s1 = (r, s2)"
      and 3: "finishCompile reg ecf expr (Some r) (if isInputColumn xs then captureFieldReference r expr s2 else s2) = Inr (p, s')"
      using c None by (auto simp: getAlreadyCompiled_def split: option.splits sum.splits prod.splits)
    have "extends s1 s2" using makeExpr_single 2 by (rule allocate_extends)
    then have "extends s1 (if isInputColumn xs then captureFieldReference r expr s2 else s2)"
      using captureFieldReference_extends[of s2 r expr] by (auto intro: extends_trans)
    then show ?thesis using ins[OF 1] 3 by blast
  next
    case (DereferenceTypedExpr t index xs)
    then obtain ins' s1 r s2 where 1: "compileInputs n reg fc ecf expr (shouldFlatten expr fc) xs s = Some (Inr (ins', s1))"
      and 2: "allocate (makeExpr (FieldReference (FieldIndex index)) t ins' True) s1 = (r, s2)"
      and 3: "finishCompile reg ecf expr (Some r) s2 = Inr (p, s')"
      using c None by (auto simp: getAlreadyCompiled_def split: option.splits sum.splits prod.splits)
    have "extends s1 s2" using makeExpr_single 2 by (rule allocate_extends)
    then show ?thesis using ins[OF 1] 3 by blast
  next
    case (CallTypedExpr t name xs)
    then obtain ins' s1 r s2 where 1: "compileInputs n reg fc ecf expr (shouldFlatten expr fc) xs s = Some (Inr (ins', s1))"
      and 2: "compileCall reg t name ins' s1 = Inr (r, s2)"
      and 3: "finishCompile reg ecf expr (Some r) s2 = Inr (p, s')"
      using c None by (auto simp: getAlreadyCompiled_def split: option.splits sum.splits prod.splits)
    show ?thesis using ins[OF 1] compileCall_extends[OF 2] 3 by blast
  next
    case (CastTypedExpr t xs isTryCast)
    then obtain ins' s1 r s2 where 1: "compileInputs n reg fc ecf expr (shouldFlatten expr fc) xs s = Some (Inr (ins', s1))"
      and 2: "compileCast reg t isTryCast ins' s1 = Inr (r, s2)"
      and 3: "finishCompile reg ecf expr r s2 = Inr (p, s')"
      using c None by (auto simp: getAlreadyCompiled_def split: option.splits sum.splits prod.splits)
    show ?thesis using ins[OF 1] compileCast_extends[OF 2] 3 by blast
  next
    case (ConcatTypedExpr t xs)
    then obtain ins' s1 r s2 where 1: "compileInputs n reg fc ecf expr (shouldFlatten expr fc) xs s = Some (Inr (ins', s1))"
      and 2: "getSpecialForm reg kRowConstructor t ins' s1 = (r, s2)"
      and 3: "finishCompile reg ecf expr r s2 = Inr (p, s')"
      using c None by (auto simp: getAlreadyCompiled_def split: option.splits sum.splits prod.splits)
    show ?thesis using ins[OF 1] getSpecialForm_extends[OF 2] 3 by blast
  next
    case (LambdaTypedExpr signature body)
    then obtain r s2 where 2: "compileLambda n reg fc ecf signature body s = Some (Inr (r, s2))"
      and 3: "finishCompile reg ecf expr r s2 = Inr (p, s')"
      using c None by (auto simp: getAlreadyCompiled_def split: option.splits sum.splits prod.splits)
    have "extends s s2" using 2 by (elim compileLambda_extends[rotated]) (erule IH)
    then show ?thesis using 3 extends_refl by blast
  qed
  then obtain s1 result s2 where "extends s s1" "extends s1 s2"
    and fin: "finishCompile reg ecf expr result s2 = Inr (p, s')" by blast
  then have "extends s s2" by (blast intro: extends_trans)
  then show ?thesis using None fin by (rule finishCompile_extends)
qed

lemma compileExpression_extends:
  "compileExpression n reg fc ecf expr s = Some (Inr (p, s')) \<Longrightarrow> extends s s'"
proof (induction n arbitrary: expr s p s')
  case 0
  then show ?case by simp
next
  case (Suc n)
  show ?case
  proof (cases "rewriteExpression (expressionRewrites reg) expr")
    case None
    then have "compileRewrittenExpression n reg fc ecf expr s = Some (Inr (p, s'))"
      using Suc.prems by simp
    then show ?thesis by (elim compileRewrittenExpression_extends[rotated]) (erule Suc.IH)
  next
    case (Some rewritten)
    let ?s = "s\<lparr>scope := (scope s)\<lparr>rewrittenExpressions := rewrittenExpressions (scope s) @ [rewritten]\<rparr>\<rparr>"
    have "compileRewrittenExpression n reg fc ecf rewritten ?s = Some (Inr (p, s'))"
      using Suc.prems Some by simp
    then have "extends ?s s'" by (elim compileRewrittenExpression_extends[rotated]) (erule Suc.IH)
    with rewritten_push_extends show ?thesis by (rule extends_trans)
  qed
qed

lemma compileRewrittenExpression_tail:
  assumes IH: "\<And>e s p s'. compileExpression n reg fc ecf e s = Some (Inr (p, s')) \<Longrightarrow> extends s s'"
    and None: "visited (scope s) expr = None"
    and i: "compileInputs n reg fc ecf expr (shouldFlatten expr fc) (inputsOf expr) s = Some (Inr (compiledInputs, s1))"
    and c: "compileRewrittenExpression n reg fc ecf expr s = Some (Inr (p, s'))"
  shows "\<exists>result s2. extends s1 s2 \<and> finishCompile reg ecf expr result s2 = Inr (p, s')"
proof (cases expr)
  case (ConstantTypedExpr t v)
  then obtain r s2 where "allocate (makeExpr (ConstantExpr v) t [] True) s = (r, s2)"
    "finishCompile reg ecf expr (Some r) s2 = Inr (p, s')"
    using c None by (auto simp: getAlreadyCompiled_def split: option.splits sum.splits prod.splits)
  moreover have "s1 = s" using i ConstantTypedExpr by simp
  ultimately show ?thesis using allocate_extends[OF makeExpr_single] by blast
next
  case (InputTypedExpr t)
  then show ?thesis using c None by (auto simp: getAlreadyCompiled_def)
next
  case (FieldAccessTypedExpr t name xs)
  then obtain r s2 where
    2: "allocate (makeExpr (FieldReference (FieldName name)) t compiledInputs True) s1 = (r, s2)"
    and 3: "finishCompile reg ecf expr (Some r) (if isInputColumn xs then captureFieldReference r expr s2 else s2) = Inr (p, s')"
    using c None i by (auto simp: getAlreadyCompiled_def split: option.splits sum.splits prod.splits)
  have "extends s1 s2" using makeExpr_single 2 by (rule allocate_extends)
  then have "extends s1 (if isInputColumn xs then captureFieldReference r expr s2 else s2)"
    using captureFieldReference_extends[of s2 r expr] by (auto intro: extends_trans)
  then show ?thesis using 3 by blast
next
  case (DereferenceTypedExpr t index xs)
  then obtain r s2 where
    2: "allocate (makeExpr (FieldReference (FieldIndex index)) t compiledInputs True) s1 = (r, s2)"
    and 3: "finishCompile reg ecf expr (Some r) s2 = Inr (p, s')"
    using c None i by (auto simp: getAlreadyCompiled_def split: option.splits sum.splits prod.splits)
  have "extends s1 s2" using makeExpr_single 2 by (rule allocate_extends)
  then show ?thesis using 3 by blast
next
  case (CallTypedExpr t name xs)
  then obtain r s2 where 2: "compileCall reg t name compiledInputs s1 = Inr (r, s2)"
    and 3: "finishCompile reg ecf expr (Some r) s2 = Inr (p, s')"
    using c None i by (auto simp: getAlreadyCompiled_def split: option.splits sum.splits prod.splits)
  show ?thesis using compileCall_extends[OF 2] 3 by blast
next
  case (CastTypedExpr t xs isTryCast)
  then obtain r s2 where 2: "compileCast reg t isTryCast compiledInputs s1 = Inr (r, s2)"
    and 3: "finishCompile reg ecf expr r s2 = Inr (p, s')"
    using c None i by (auto simp: getAlreadyCompiled_def split: option.splits sum.splits prod.splits)
  show ?thesis using compileCast_extends[OF 2] 3 by blast
next
  case (ConcatTypedExpr t xs)
  then obtain r s2 where 2: "getSpecialForm reg kRowConstructor t compiledInputs s1 = (r, s2)"
    and 3: "finishCompile reg ecf expr r s2 = Inr (p, s')"
    using c None i by (auto simp: getAlreadyCompiled_def split: option.splits sum.splits prod.splits)
  show ?thesis using getSpecialForm_extends[OF 2] 3 by blast
next
  case (LambdaTypedExpr signature body)
  then obtain r s2 where 2: "compileLambda n reg fc ecf signature body s = Some (Inr (r, s2))"
    and 3: "finishCompile reg ecf expr r s2 = Inr (p, s')"
    using c None by (auto simp: getAlreadyCompiled_def split: option.splits sum.splits prod.splits)
  have "extends s s2" using 2 by (elim compileLambda_extends[rotated]) (erule IH)
  moreover have "s1 = s" using i LambdaTypedExpr by simp
  ultimately show ?thesis using 3 by blast
qed

lemma finishCompile_keeps:
  assumes fin: "finishCompile reg ecf expr result t = Inr (c, u)"
  shows "(\<forall>e p. e \<noteq> expr \<longrightarrow> visited (scope t) e = Some p \<longrightarrow> visited (scope u) e = Some p)
         \<and> (resetRegistered t \<longrightarrow> resetRegistered u)"
proof -
  let ?t = "t\<lparr>scope := (scope t)\<lparr>visited := (visited (scope t))(expr := None)\<rparr>\<rparr>"
  have "list_all2 scopeExtends (scopeChain ?t) (scopeChain t)"
    by (simp add: scopeChain_def scopeExtends_def list_all2_refl)
  moreover have "capturesClosed (scopeChain ?t) = capturesClosed (scopeChain t)"
    by (rule capturesClosed_cong) (simp add: scopeChain_def)
  moreover have "resetRegistered ?t = resetRegistered t" by (simp add: resetRegistered_def)
  ultimately have "extends ?t t" by (simp add: extends_def)
  moreover have "visited (scope ?t) expr = None" by simp
  ultimately have e: "extends ?t u" using fin by (rule finishCompile_extends)
  then have "scopeExtends (scope ?t) (scope u)" by (simp add: extends_def scopeChain_def)
  then have "\<forall>e p. e \<noteq> expr \<longrightarrow> visited (scope t) e = Some p \<longrightarrow> visited (scope u) e = Some p"
    by (auto simp: scopeExtends_def)
  moreover have "resetRegistered t \<longrightarrow> resetRegistered u"
    using e \<open>resetRegistered ?t = resetRegistered t\<close> by (simp add: extends_def)
  ultimately show ?thesis by simp
qed

lemma compiledLater_keeps:
  "compiledLater reg fc ecf s enclosing t \<Longrightarrow>
     (\<forall>e p. e \<notin> set enclosing \<longrightarrow> visited (scope s) e = Some p \<longrightarrow> visited (scope t) e = Some p)
     \<and> (resetRegistered s \<longrightarrow> resetRegistered t)"
proof (induction rule: compiledLater.induct)
  case (compiledLaterSame s)
  then show ?case by simp
next
  case (compiledLaterStep s enclosing t n expr p u)
  have "extends t u" using compiledLaterStep.hyps(2) by (rule compileExpression_extends)
  then have "(\<forall>e p. visited (scope t) e = Some p \<longrightarrow> visited (scope u) e = Some p)
      \<and> (resetRegistered t \<longrightarrow> resetRegistered u)"
    by (auto simp: extends_def scopeChain_def scopeExtends_def)
  then show ?case using compiledLaterStep.IH by blast
next
  case (compiledLaterEnter s enclosing t expr rewritten)
  then show ?case by (simp add: resetRegistered_def)
next
  case (compiledLaterReturn s enclosing t expr before n compiledInputs p u)
  have none: "visited (scope before) expr = None"
    using compiledLaterReturn.hyps(2) by (simp add: getAlreadyCompiled_def)
  have "\<exists>result s2. extends t s2 \<and> finishCompile reg ecf expr result s2 = Inr (p, u)"
    by (rule compileRewrittenExpression_tail[rotated, OF none compiledLaterReturn.hyps(3,4)])
       (erule compileExpression_extends)
  then obtain result s2 where e: "extends t s2" and fin: "finishCompile reg ecf expr result s2 = Inr (p, u)"
    by blast
  have a: "(\<forall>e p. visited (scope t) e = Some p \<longrightarrow> visited (scope s2) e = Some p)
      \<and> (resetRegistered t \<longrightarrow> resetRegistered s2)"
    using e by (auto simp: extends_def scopeChain_def scopeExtends_def)
  note b = finishCompile_keeps[OF fin]
  show ?case using compiledLaterReturn.IH a b by simp
qed

lemma compileRewrittenExpression_visited:
  "compileRewrittenExpression n reg fc ecf expr s = Some (Inr (p, s')) \<Longrightarrow> visited (scope s') expr = Some p"
  by (auto simp: getAlreadyCompiled_def reuseCompiled_def finishCompile_def Let_def
      split: option.splits sum.splits prod.splits if_splits)

lemma resetRegistered_initialState: "resetRegistered (initialState es)"
  by (simp add: resetRegistered_def initialState_def makeExpr_def)

lemma capturesClosed_initialState: "capturesClosed (scopeChain (initialState es))"
  by (simp add: scopeChain_def initialState_def)

section \<open>Expression compiler: common subexpressions\<close>

text \<open>
  C4. Common subexpression elimination is sound. The table of a scope compares IR nodes
  by structure, which is the equality of \<^typ>\<open>ITypedExpr\<close>, so two structurally equal
  nodes are one value \<open>a\<close>. Let the compilation of \<open>a\<close> in a scope return the node \<open>p\<close>,
  from a state where every multiply referenced node is registered for the reset, and let
  \<open>a\<close> be compiled again in a state reached later in that scope: after other expressions
  were compiled, and after the compilation of expressions that enclose \<open>a\<close> returned,
  none of which is, after rewriting, \<open>a\<close> itself. Then compiling \<open>a\<close> again returns,
  whatever the bound on the depth, the same address \<open>p\<close> and builds no node; \<open>p\<close> is
  then marked as multiply referenced and is registered for the per-batch reset. On the
  first reuse, when \<open>p\<close> was not yet marked, it is appended to the nodes to reset and its
  metadata is cleared and computed again; on a later reuse the graph and the \<^verbatim>\<open>ExprSet\<close>
  stay as they are.
\<close>

theorem common_subexpression_reuse:
  assumes first: "compileExpression n reg flatteningCandidates enableConstantFolding a s = Some (Inr (p, s1))"
    and later: "compiledLater reg flatteningCandidates enableConstantFolding s1 enclosing s2"
    and notEnclosing: "afterRewrite reg a \<notin> set enclosing"
    and registered: "resetRegistered s"
  shows "\<exists>s3. compileExpression (Suc m) reg flatteningCandidates enableConstantFolding a s2 = Some (Inr (p, s3))
           \<and> isMultiplyReferenced (heap s3 p)
           \<and> p \<in> set (toReset (exprSet s3))
           \<and> nextPtr s3 = nextPtr s2
           \<and> (\<not> isMultiplyReferenced (heap s2 p) \<longrightarrow>
                toReset (exprSet s3) = toReset (exprSet s2) @ [p]
                \<and> heap s3 = computeMetadata (clearMetaData (setMultiplyReferenced (heap s2) p) p) p
                \<and> metaDataComputed (heap s3 p))
           \<and> (isMultiplyReferenced (heap s2 p) \<longrightarrow> heap s3 = heap s2 \<and> exprSet s3 = exprSet s2)"
proof -
  obtain k where n: "n = Suc k" using first by (cases n) auto
  define key where "key = afterRewrite reg a"
  define push :: "CompileState \<Rightarrow> CompileState" where "push = (\<lambda>t. case rewriteExpression (expressionRewrites reg) a of
      Some rewritten \<Rightarrow> t\<lparr>scope := (scope t)\<lparr>rewrittenExpressions := rewrittenExpressions (scope t) @ [rewritten]\<rparr>\<rparr>
    | None \<Rightarrow> t)"
  have unfold: "\<And>t j. compileExpression (Suc j) reg flatteningCandidates enableConstantFolding a t
      = compileRewrittenExpression j reg flatteningCandidates enableConstantFolding key (push t)"
    by (simp add: key_def afterRewrite_def push_def split: option.splits)
  have "visited (scope s1) key = Some p"
    using first unfolding n unfold by (rule compileRewrittenExpression_visited)
  moreover note keeps = compiledLater_keeps[OF later]
  ultimately have "visited (scope s2) key = Some p"
    using notEnclosing by (simp add: key_def)
  then have found: "visited (scope (push s2)) key = Some p"
    by (simp add: push_def split: option.splits)
  have same: "heap (push s2) = heap s2" "exprSet (push s2) = exprSet s2" "nextPtr (push s2) = nextPtr s2"
    by (simp_all add: push_def split: option.splits)
  have "extends s s1" using first by (rule compileExpression_extends)
  then have "resetRegistered s2" using keeps registered by (simp add: extends_def)
  then have reg2: "isMultiplyReferenced (heap s2 p) \<Longrightarrow> p \<in> set (toReset (exprSet s2))"
    by (simp add: resetRegistered_def)
  let ?s3 = "reuseCompiled p (push s2)"
  have run: "compileExpression (Suc m) reg flatteningCandidates enableConstantFolding a s2 = Some (Inr (p, ?s3))"
    unfolding unfold using found by (simp add: getAlreadyCompiled_def)
  have marked: "isMultiplyReferenced (heap ?s3 p)"
    by (simp add: reuseCompiled_def same computeMetadata_fields clearMetaData_def setMultiplyReferenced_def)
  have inReset: "p \<in> set (toReset (exprSet ?s3))"
    using reg2 by (auto simp: reuseCompiled_def same addToReset_def)
  have ptr: "nextPtr ?s3 = nextPtr s2"
    by (simp add: reuseCompiled_def same)
  have firstReuse: "\<not> isMultiplyReferenced (heap s2 p) \<longrightarrow>
                toReset (exprSet ?s3) = toReset (exprSet s2) @ [p]
                \<and> heap ?s3 = computeMetadata (clearMetaData (setMultiplyReferenced (heap s2) p) p) p
                \<and> metaDataComputed (heap ?s3 p)"
    by (simp add: reuseCompiled_def same addToReset_def computeMetadata_computed)
  have again: "isMultiplyReferenced (heap s2 p) \<longrightarrow> heap ?s3 = heap s2 \<and> exprSet ?s3 = exprSet s2"
    by (simp add: reuseCompiled_def same)
  show ?thesis using run marked inReset ptr firstReuse again by blast
qed

text \<open>
  In the top-level scope the column \<^verbatim>\<open>k\<close> is compiled to node 1 and the constant 1 to
  node 2, as the inputs of \<^verbatim>\<open>plus(k, 1)\<close>, whose compilation then returns node 3; then \<^verbatim>\<open>k\<close>
  is compiled again: the result is node 1, now multiply referenced and the one node to
  reset, and no node is built.
\<close>

theorem common_subexpression_reuse_witness:
  "\<exists>s3. compileExpression 1 exampleRegistry {} False (column bigintType ''k'')
           (compiledState (compileRewrittenExpression 1 exampleRegistry {} False incrementLambdaBody
              (initialState (exampleExprSet True))))
          = Some (Inr (1, s3))
        \<and> isMultiplyReferenced (heap s3 1) \<and> toReset (exprSet s3) = [1] \<and> nextPtr s3 = 4
        \<and> metaDataComputed (heap s3 1)"
proof -
  let ?k = "column bigintType ''k''"
  let ?s = "initialState (exampleExprSet True)"
  let ?s1 = "compiledState (compileExpression 1 exampleRegistry {} False ?k ?s)"
  let ?s2 = "compiledState (compileExpression 1 exampleRegistry {} False (intConstant 1) ?s1)"
  let ?u = "compiledState (compileRewrittenExpression 1 exampleRegistry {} False incrementLambdaBody ?s)"
  have first: "compileExpression 1 exampleRegistry {} False ?k ?s = Some (Inr (1, ?s1))"
    by (simp add: compiledState_def example_simps compile_simps)
  have step: "compileExpression 1 exampleRegistry {} False (intConstant 1) ?s1 = Some (Inr (2, ?s2))"
    by (simp add: compiledState_def example_simps compile_simps)
  have absent: "getAlreadyCompiled incrementLambdaBody (visited (scope ?s)) = None"
    by (simp add: compile_simps)
  have ins: "compileInputs 1 exampleRegistry {} False incrementLambdaBody
        (shouldFlatten incrementLambdaBody {}) (inputsOf incrementLambdaBody) ?s = Some (Inr ([1, 2], ?s2))"
    by (simp add: incrementLambdaBody_def compiledState_def example_simps compile_simps)
  have ret: "compileRewrittenExpression 1 exampleRegistry {} False incrementLambdaBody ?s = Some (Inr (3, ?u))"
    by (simp add: incrementLambdaBody_def compiledState_def example_simps compile_simps)
  have later: "compiledLater exampleRegistry {} False ?s1 [incrementLambdaBody] ?u"
    using compiledLaterReturn[OF compiledLaterStep[OF compiledLaterSame step] absent ins ret] .
  have other: "afterRewrite exampleRegistry ?k \<notin> set [incrementLambdaBody]"
    by (simp add: afterRewrite_def incrementLambdaBody_def example_simps)
  have fresh: "\<not> isMultiplyReferenced (heap ?u 1)" "toReset (exprSet ?u) = []" "nextPtr ?u = 4"
    by (simp_all add: incrementLambdaBody_def compiledState_def example_simps compile_simps)
  from common_subexpression_reuse[OF first later other resetRegistered_initialState, of 0] fresh
  show ?thesis by auto
qed

section \<open>Expression compiler: captures of lambdas\<close>

text \<open>
  What \<^verbatim>\<open>captureFieldReference\<close> does to a chain of scopes with closed capture lists, and
  which scopes a compilation leaves alone: those from the position on below which all
  the references of the expression resolve.
\<close>

lemma definingScope_simps:
  "definingScope name [] = 0"
  "definingScope name [a] = 0"
  "definingScope name (a # b # rest)
     = (if name \<in> set (locals a) then 0 else Suc (definingScope name (b # rest)))"
  by (simp_all add: definingScope_def)

lemma captured_above:
  "capturesClosed (sc # rest) \<Longrightarrow> name \<in> set (capture sc)
     \<Longrightarrow> \<forall>x \<in> set (take (definingScope name rest) rest). name \<in> set (capture x)"
proof (induction rest arbitrary: sc)
  case Nil
  then show ?case by simp
next
  case (Cons a rest)
  show ?case
  proof (cases rest)
    case Nil
    then show ?thesis by (simp add: definingScope_simps)
  next
    case (Cons b r)
    show ?thesis
    proof (cases "name \<in> set (locals a)")
      case True
      then show ?thesis using Cons by (simp add: definingScope_simps)
    next
      case False
      have a: "name \<in> set (capture a)" using Cons.prems Cons False by auto
      have "capturesClosed (a # rest)" using Cons.prems(1) by (rule capturesClosed_tl)
      then have "\<forall>x \<in> set (take (definingScope name rest) rest). name \<in> set (capture x)"
        using a by (rule Cons.IH)
      then show ?thesis using a False Cons by (simp add: definingScope_simps)
    qed
  qed
qed

lemma captureChain_discovery:
  "capturesClosed scopes \<Longrightarrow>
     captureChain name r fa scopes
       = map (\<lambda>sc. if name \<in> set (capture sc) then sc else addCapture name r fa sc)
           (take (definingScope name scopes) scopes)
         @ drop (definingScope name scopes) scopes"
proof (induction name r fa scopes rule: captureChain.induct)
  case (1 name r fa sc parent rest)
  have closed: "capturesClosed (parent # rest)" using "1.prems" by (rule capturesClosed_tl)
  show ?case
  proof (cases "name \<in> set (locals sc)")
    case True
    then show ?thesis by (simp add: definingScope_simps)
  next
    case notLocal: False
    show ?thesis
    proof (cases "name \<in> set (capture sc)")
      case True
      have "\<forall>x \<in> set (take (definingScope name (parent # rest)) (parent # rest)). name \<in> set (capture x)"
        using "1.prems" True by (rule captured_above)
      then have "map (\<lambda>sc. if name \<in> set (capture sc) then sc else addCapture name r fa sc)
                   (take (definingScope name (parent # rest)) (parent # rest))
                 = take (definingScope name (parent # rest)) (parent # rest)"
        by (intro map_idI) simp
      then show ?thesis using True notLocal by (simp add: definingScope_simps)
    next
      case False
      then show ?thesis using notLocal "1.IH"[OF _ closed] by (simp add: definingScope_simps)
    qed
  qed
qed (simp_all add: definingScope_simps)

lemma boundNames_simps:
  "boundNames k [] = {}"
  "boundNames 0 (sc # rest) = set (locals sc)"
  "boundNames (Suc k) (sc # rest) = set (locals sc) \<union> boundNames k rest"
  by (simp_all add: boundNames_def)

lemma captureChain_drop:
  "name \<in> boundNames k scopes \<Longrightarrow> drop k (captureChain name r fa scopes) = drop k scopes"
proof (induction name r fa scopes arbitrary: k rule: captureChain.induct)
  case (1 name r fa sc parent rest)
  show ?case
  proof (cases "name \<in> set (locals sc) \<or> name \<in> set (capture sc)")
    case True
    then show ?thesis by simp
  next
    case False
    then obtain k' where k: "k = Suc k'" and "name \<in> boundNames k' (parent # rest)"
      using "1.prems" by (cases k) (auto simp: boundNames_simps)
    then show ?thesis using False "1.IH"[OF False, of k'] by simp
  qed
qed simp_all

lemma extends_locals:
  "extends s s' \<Longrightarrow> map locals (scopeChain s') = map locals (scopeChain s)"
proof -
  assume "extends s s'"
  then have "list_all2 scopeExtends (scopeChain s) (scopeChain s')" by (simp add: extends_def)
  then show ?thesis by (induction rule: list_all2_induct) (auto simp: scopeExtends_def)
qed

lemma boundNames_locals: "boundNames k scopes = \<Union> (set (take (Suc k) (map (\<lambda>l. set l) (map locals scopes))))"
  by (simp add: boundNames_def take_map)

lemma extends_boundNames:
  "extends s s' \<Longrightarrow> boundNames k (scopeChain s') = boundNames k (scopeChain s)"
  by (simp only: boundNames_locals extends_locals)

lemma freeReferences_flattenInput:
  "x \<in> set (flattenInput input flattenCall []) \<Longrightarrow> freeReferences x \<subseteq> freeReferences input"
proof (induction input arbitrary: x)
  case (CallTypedExpr t n ins)
  show ?case
  proof (cases "isCall (CallTypedExpr t n ins) flattenCall \<and> allInputTypesEquivalent (CallTypedExpr t n ins)")
    case True
    from flattenInput_call[OF True] CallTypedExpr.prems
    obtain child where "child \<in> set ins" "x \<in> set (flattenInput child flattenCall [])"
      by auto
    then show ?thesis using CallTypedExpr.IH[of child x] by auto
  next
    case False
    from flattenInput_stop[OF False] CallTypedExpr.prems show ?thesis by simp
  qed
qed simp_all

lemma capturesKept_refl: "capturesKept k s s"
  by (simp add: capturesKept_def)

lemma capturesKept_trans: "capturesKept k s t \<Longrightarrow> capturesKept k t u \<Longrightarrow> capturesKept k s u"
  by (simp add: capturesKept_def)

lemma capturesKept_chain:
  "map captureLists (scopeChain s') = map captureLists (scopeChain s) \<Longrightarrow> capturesKept k s s'"
  unfolding capturesKept_def drop_map[symmetric] by simp

lemma allocate_chain: "allocate e s = (p, s') \<Longrightarrow> scopeChain s' = scopeChain s"
  by (auto simp: allocate_def scopeChain_def)

lemma getSpecialForm_chain: "getSpecialForm reg name t ins s = (po, s') \<Longrightarrow> scopeChain s' = scopeChain s"
  by (auto simp: getSpecialForm_def constructSpecialForm_def split: if_splits prod.splits
      dest: allocate_chain)

lemma compileCall_chain: "compileCall reg t name ins s = Inr (p, s') \<Longrightarrow> scopeChain s' = scopeChain s"
  by (auto simp: compileCall_def constructSpecialForm_def Let_def split: if_splits option.splits prod.splits
      dest: allocate_chain)

lemma compileCast_chain: "compileCast reg t isTryCast ins s = Inr (po, s') \<Longrightarrow> scopeChain s' = scopeChain s"
  by (auto simp: compileCast_def split: list.splits if_splits dest: getSpecialForm_chain)

lemma reuseCompiled_chain: "scopeChain (reuseCompiled p s) = scopeChain s"
  by (simp add: reuseCompiled_def scopeChain_def)

lemma tryFoldIfConstant_chain: "tryFoldIfConstant reg p s = Inr (c, s') \<Longrightarrow> scopeChain s' = scopeChain s"
  by (auto simp: tryFoldIfConstant_def Let_def allocate_def applyEvalEffects_def scopeChain_def
      split: if_splits sum.splits VeloxException.splits)

lemma finishCompile_captures:
  assumes "finishCompile reg ecf expr result t = Inr (c, u)"
  shows "map captureLists (scopeChain u) = map captureLists (scopeChain t)"
proof -
  obtain r where r: "result = Some r" using assms by (cases result) (auto simp: finishCompile_def)
  let ?t1 = "t\<lparr>heap := computeMetadata (heap t) r\<rparr>"
  obtain t3 where t3: "scopeChain t3 = scopeChain t"
    and u: "u = t3\<lparr>scope := (scope t3)\<lparr>visited := (visited (scope t3))(expr := Some c)\<rparr>\<rparr>"
  proof (cases "ecf \<and> \<not> isConstant (heap ?t1 r)")
    case True
    then obtain t2 where f: "tryFoldIfConstant reg r ?t1 = Inr (c, t2)"
      and u: "u = (t2\<lparr>exprSet := clear (exprSet t2)\<rparr>)\<lparr>scope := (scope t2)\<lparr>visited := (visited (scope t2))(expr := Some c)\<rparr>\<rparr>"
      using assms r by (auto simp: finishCompile_def Let_def split: sum.splits)
    have "scopeChain (t2\<lparr>exprSet := clear (exprSet t2)\<rparr>) = scopeChain t"
      using tryFoldIfConstant_chain[OF f] by (simp add: scopeChain_def)
    then show ?thesis using that u by simp
  next
    case False
    then have "u = ?t1\<lparr>scope := (scope ?t1)\<lparr>visited := (visited (scope ?t1))(expr := Some c)\<rparr>\<rparr>"
      using assms r by (auto simp: finishCompile_def Let_def)
    moreover have "scopeChain ?t1 = scopeChain t" by (simp add: scopeChain_def)
    ultimately show ?thesis using that by blast
  qed
  show ?thesis unfolding u using t3 by (auto simp: scopeChain_def captureLists_def)
qed

lemma captureFieldReference_chain:
  "scopeChain (captureFieldReference r fa s) = captureChain (field (heap s r)) r fa (scopeChain s)"
proof -
  let ?c = "captureChain (field (heap s r)) r fa (scope s # parents s)"
  obtain sc ps where c: "?c = sc # ps"
    using captureChain_length[of "field (heap s r)" r fa "scope s # parents s"] by (cases ?c) auto
  have s': "captureFieldReference r fa s = s\<lparr>scope := sc, parents := ps\<rparr>"
    unfolding captureFieldReference_def c by simp
  show ?thesis unfolding s' scopeChain_def c by simp
qed

lemma captureReferencesOf_captures:
  "captureReferencesOf zs s = (refs, s') \<Longrightarrow> map captureLists (scopeChain s') = map captureLists (scopeChain s)"
proof (induction zs arbitrary: s refs s')
  case Nil
  then show ?case by simp
next
  case (Cons z zs)
  obtain expr inner where z: "z = (expr, inner)" by (cases z)
  show ?case
  proof (cases "visited (scope s) expr")
    case (Some reference)
    then obtain refs' where "captureReferencesOf zs s = (refs', s')"
      using Cons.prems z by (auto simp: getAlreadyCompiled_def split: prod.splits)
    then show ?thesis by (rule Cons.IH)
  next
    case None
    obtain reference s1 where a: "allocate (makeExpr (FieldReference (FieldName (field (heap s inner))))
                            (exprType (heap s inner)) [] True) s = (reference, s1)"
      by (simp add: allocate_def)
    let ?s2 = "s1\<lparr>scope := (scope s1)\<lparr>visited := (visited (scope s1))(expr := Some reference)\<rparr>\<rparr>"
    have e2: "map captureLists (scopeChain ?s2) = map captureLists (scopeChain s)"
      using allocate_chain[OF a] by (auto simp: scopeChain_def captureLists_def)
    obtain refs' where "captureReferencesOf zs ?s2 = (refs', s')"
      using Cons.prems z None a by (auto simp: getAlreadyCompiled_def split: prod.splits)
    then have "map captureLists (scopeChain s') = map captureLists (scopeChain ?s2)" by (rule Cons.IH)
    with e2 show ?thesis by simp
  qed
qed

lemma finishLambda_captures:
  assumes "finishLambda signature body s1 = Inr (po, s')"
  shows "map captureLists (scopeChain s') = map captureLists (parents s1)"
proof -
  obtain enclosing rest where ps: "parents s1 = enclosing # rest"
    using assms by (cases "parents s1") (auto simp: finishLambda_def)
  let ?s2 = "s1\<lparr>scope := enclosing, parents := rest\<rparr>"
  obtain refs s3 where c: "captureReferencesOf (zip (captureFieldAccesses (scope s1)) (captureReferences (scope s1))) ?s2 = (refs, s3)"
    by (cases "captureReferencesOf (zip (captureFieldAccesses (scope s1)) (captureReferences (scope s1))) ?s2")
  obtain p where "allocate (makeExpr (LambdaExpr signature refs body)
       (FunctionType (map snd signature) (exprType (heap s3 body))) [] True) s3 = (p, s')"
    using assms ps c by (auto simp: finishLambda_def Let_def split: prod.splits)
  then have "scopeChain s' = scopeChain s3" by (rule allocate_chain)
  then show ?thesis using captureReferencesOf_captures[OF c] ps by (simp add: scopeChain_def)
qed

lemma finishLambda_no_captures:
  assumes "finishLambda signature body s1 = Inr (po, s')" "captureLists (scope s1) = ([], [], [])"
  shows "\<exists>p. po = Some p \<and> p = nextPtr s1 \<and> node (heap s' p) = LambdaExpr signature [] body"
  using assms
  by (cases "parents s1") (auto simp: finishLambda_def captureLists_def allocate_def makeExpr_def Let_def)

lemma compileFlat_kept:
  assumes IH: "\<And>e s p s' k. compileExpression n reg fc ecf e s = Some (Inr (p, s'))
      \<Longrightarrow> freeReferences e \<subseteq> boundNames k (scopeChain s) \<Longrightarrow> capturesKept k s s'"
  shows "compileFlat n reg fc ecf ins s = Some (Inr (ps, s'))
     \<Longrightarrow> \<forall>e \<in> set ins. freeReferences e \<subseteq> boundNames k (scopeChain s) \<Longrightarrow> capturesKept k s s'"
proof (induction ins arbitrary: s ps s')
  case Nil
  then show ?case by (simp add: capturesKept_refl)
next
  case (Cons input rest)
  then obtain p s1 others where 1: "compileExpression n reg fc ecf input s = Some (Inr (p, s1))"
    and 2: "compileFlat n reg fc ecf rest s1 = Some (Inr (others, s'))"
    by (auto split: option.splits sum.splits prod.splits)
  have same: "boundNames k (scopeChain s1) = boundNames k (scopeChain s)"
    using compileExpression_extends[OF 1] by (rule extends_boundNames)
  have a: "capturesKept k s s1" using 1 Cons.prems(2) by (intro IH) auto
  have b: "capturesKept k s1 s'" using 2 Cons.prems(2) same by (intro Cons.IH) auto
  show ?case using a b by (rule capturesKept_trans)
qed

lemma compileInputs_kept:
  assumes IH: "\<And>e s p s' k. compileExpression n reg fc ecf e s = Some (Inr (p, s'))
      \<Longrightarrow> freeReferences e \<subseteq> boundNames k (scopeChain s) \<Longrightarrow> capturesKept k s s'"
  shows "compileInputs n reg fc ecf expr fl ins s = Some (Inr (ps, s'))
     \<Longrightarrow> \<forall>e \<in> set ins. freeReferences e \<subseteq> boundNames k (scopeChain s) \<Longrightarrow> capturesKept k s s'"
proof (induction ins arbitrary: s ps s')
  case Nil
  then show ?case by (simp add: capturesKept_refl)
next
  case (Cons input rest)
  show ?case
  proof (cases "isInputKind input")
    case True
    then have "compileInputs n reg fc ecf expr fl rest s = Some (Inr (ps, s'))"
      using Cons.prems by (auto split: if_splits)
    then show ?thesis using Cons.prems(2) by (intro Cons.IH) auto
  next
    case False
    then obtain compiled s1 others where
      1: "(case fl of Some flattenCall \<Rightarrow> compileFlat n reg fc ecf (flattenInput input flattenCall []) s
            | None \<Rightarrow> (case compileExpression n reg fc ecf input s of None \<Rightarrow> None
                 | Some (Inl e) \<Rightarrow> Some (Inl e) | Some (Inr (p, s1)) \<Rightarrow> Some (Inr ([p], s1))))
          = Some (Inr (compiled, s1))"
      and 2: "compileInputs n reg fc ecf expr fl rest s1 = Some (Inr (others, s'))"
      using Cons.prems(1) by (auto split: option.splits sum.splits prod.splits)
    have input: "freeReferences input \<subseteq> boundNames k (scopeChain s)" using Cons.prems(2) by simp
    have "extends s s1 \<and> capturesKept k s s1"
    proof (cases fl)
      case None
      then obtain p where c: "compileExpression n reg fc ecf input s = Some (Inr (p, s1))"
        using 1 by (auto split: option.splits sum.splits prod.splits)
      show ?thesis using compileExpression_extends[OF c] IH[OF c input] by simp
    next
      case (Some flattenCall)
      then have c: "compileFlat n reg fc ecf (flattenInput input flattenCall []) s = Some (Inr (compiled, s1))"
        using 1 by simp
      have e: "extends s s1"
        using c by (elim compileFlat_extends[rotated]) (erule compileExpression_extends)
      have all: "\<forall>e \<in> set (flattenInput input flattenCall []). freeReferences e \<subseteq> boundNames k (scopeChain s)"
        using freeReferences_flattenInput input by blast
      have "capturesKept k s s1"
        by (rule compileFlat_kept[rotated, OF c all]) (erule IH, assumption)
      with e show ?thesis by simp
    qed
    then have e: "extends s s1" and a: "capturesKept k s s1" by simp_all
    have same: "boundNames k (scopeChain s1) = boundNames k (scopeChain s)"
      using e by (rule extends_boundNames)
    have b: "capturesKept k s1 s'" using 2 Cons.prems(2) same by (intro Cons.IH) auto
    show ?thesis using a b by (rule capturesKept_trans)
  qed
qed

lemma compileLambda_body:
  assumes IH: "\<And>e s p s' k. compileExpression n reg fc ecf e s = Some (Inr (p, s'))
      \<Longrightarrow> freeReferences e \<subseteq> boundNames k (scopeChain s) \<Longrightarrow> capturesKept k s s'"
    and c: "compileLambda n reg fc ecf signature body s = Some (Inr (po, s'))"
    and free: "freeReferences body - set (map fst signature) \<subseteq> boundNames k (scopeChain s)"
  shows "\<exists>b s1. compileExpression n reg fc ecf body
             (s\<lparr>scope := newScope (map fst signature), parents := scope s # parents s\<rparr>) = Some (Inr (b, s1))
           \<and> finishLambda signature b s1 = Inr (po, s')
           \<and> capturesKept (Suc k) (s\<lparr>scope := newScope (map fst signature), parents := scope s # parents s\<rparr>) s1"
proof -
  let ?pushed = "s\<lparr>scope := newScope (map fst signature), parents := scope s # parents s\<rparr>"
  obtain b s1 where 1: "compileExpression n reg fc ecf body ?pushed = Some (Inr (b, s1))"
    and 2: "finishLambda signature b s1 = Inr (po, s')"
    using c by (auto split: option.splits sum.splits prod.splits)
  have "scopeChain ?pushed = newScope (map fst signature) # scopeChain s"
    by (simp add: scopeChain_def)
  then have "freeReferences body \<subseteq> boundNames (Suc k) (scopeChain ?pushed)"
    using free by (auto simp: boundNames_simps newScope_def)
  then have "capturesKept (Suc k) ?pushed s1" using 1 by (intro IH)
  then show ?thesis using 1 2 by blast
qed

lemma compileLambda_kept:
  assumes IH: "\<And>e s p s' k. compileExpression n reg fc ecf e s = Some (Inr (p, s'))
      \<Longrightarrow> freeReferences e \<subseteq> boundNames k (scopeChain s) \<Longrightarrow> capturesKept k s s'"
    and c: "compileLambda n reg fc ecf signature body s = Some (Inr (po, s'))"
    and free: "freeReferences body - set (map fst signature) \<subseteq> boundNames k (scopeChain s)"
  shows "capturesKept k s s'"
proof -
  let ?pushed = "s\<lparr>scope := newScope (map fst signature), parents := scope s # parents s\<rparr>"
  have "\<exists>b s1. compileExpression n reg fc ecf body ?pushed = Some (Inr (b, s1))
           \<and> finishLambda signature b s1 = Inr (po, s') \<and> capturesKept (Suc k) ?pushed s1"
    by (rule compileLambda_body[rotated, OF c free]) (erule IH, assumption)
  then obtain b s1 where 2: "finishLambda signature b s1 = Inr (po, s')"
    and 3: "capturesKept (Suc k) ?pushed s1" by blast
  have "map captureLists (drop k (parents s1)) = map captureLists (drop k (scopeChain s))"
    using 3 by (simp add: capturesKept_def scopeChain_def)
  moreover have "map captureLists (scopeChain s') = map captureLists (parents s1)"
    using 2 by (rule finishLambda_captures)
  then have "map captureLists (drop k (scopeChain s')) = map captureLists (drop k (parents s1))"
    unfolding drop_map[symmetric] by simp
  ultimately show ?thesis by (simp add: capturesKept_def)
qed

lemma allocate_heap: "allocate e s = (p, s') \<Longrightarrow> heap s' p = e"
  by (auto simp: allocate_def)

lemma capturesKept_same: "scopeChain s' = scopeChain s \<Longrightarrow> capturesKept k s s'"
  by (simp add: capturesKept_def)

lemma compileRewrittenExpression_kept:
  assumes IH: "\<And>e s p s' k. compileExpression n reg fc ecf e s = Some (Inr (p, s'))
      \<Longrightarrow> freeReferences e \<subseteq> boundNames k (scopeChain s) \<Longrightarrow> capturesKept k s s'"
    and c: "compileRewrittenExpression n reg fc ecf expr s = Some (Inr (p, s'))"
    and free: "freeReferences expr \<subseteq> boundNames k (scopeChain s)"
  shows "capturesKept k s s'"
proof (cases "visited (scope s) expr")
  case (Some q)
  then have "s' = reuseCompiled q s" using c by (auto simp: getAlreadyCompiled_def)
  then show ?thesis by (simp add: capturesKept_same reuseCompiled_chain)
next
  case None
  have ins: "\<And>xs ps s1. compileInputs n reg fc ecf expr (shouldFlatten expr fc) xs s = Some (Inr (ps, s1))
      \<Longrightarrow> \<forall>e \<in> set xs. freeReferences e \<subseteq> boundNames k (scopeChain s) \<Longrightarrow> capturesKept k s s1"
    by (erule compileInputs_kept[rotated]) (assumption, erule IH, assumption)
  have inputs: "\<forall>e \<in> set (inputsOf expr). freeReferences e \<subseteq> boundNames k (scopeChain s)"
    using free by (cases expr) auto
  have "\<exists>result s2. capturesKept k s s2 \<and> finishCompile reg ecf expr result s2 = Inr (p, s')"
  proof (cases expr)
    case (ConstantTypedExpr t v)
    then obtain r s2 where "allocate (makeExpr (ConstantExpr v) t [] True) s = (r, s2)"
      "finishCompile reg ecf expr (Some r) s2 = Inr (p, s')"
      using c None by (auto simp: getAlreadyCompiled_def split: option.splits sum.splits prod.splits)
    then show ?thesis using allocate_chain capturesKept_same by blast
  next
    case (InputTypedExpr t)
    then show ?thesis using c None by (auto simp: getAlreadyCompiled_def)
  next
    case (FieldAccessTypedExpr t name xs)
    then obtain ins' s1 r s2 where 1: "compileInputs n reg fc ecf expr (shouldFlatten expr fc) xs s = Some (Inr (ins', s1))"
      and 2: "allocate (makeExpr (FieldReference (FieldName name)) t ins' True) s1 = (r, s2)"
      and 3: "finishCompile reg ecf expr (Some r) (if isInputColumn xs then captureFieldReference r expr s2 else s2) = Inr (p, s')"
      using c None by (auto simp: getAlreadyCompiled_def split: option.splits sum.splits prod.splits)
    have k1: "capturesKept k s s1" using 1 inputs FieldAccessTypedExpr by (intro ins) simp_all
    have chain2: "scopeChain s2 = scopeChain s1" using 2 by (rule allocate_chain)
    have e1: "extends s s1"
      using 1 by (elim compileInputs_extends[rotated]) (erule compileExpression_extends)
    have "capturesKept k s2 (if isInputColumn xs then captureFieldReference r expr s2 else s2)"
    proof (cases "isInputColumn xs")
      case True
      have "field (heap s2 r) = name" using allocate_heap[OF 2] by (simp add: makeExpr_def)
      moreover have "name \<in> boundNames k (scopeChain s2)"
        using free True FieldAccessTypedExpr extends_boundNames[OF e1, of k] chain2 by auto
      ultimately have "drop k (scopeChain (captureFieldReference r expr s2)) = drop k (scopeChain s2)"
        unfolding captureFieldReference_chain by (simp only: captureChain_drop)
      then show ?thesis using True by (simp add: capturesKept_def)
    next
      case False
      then show ?thesis by (simp add: capturesKept_refl)
    qed
    then have "capturesKept k s (if isInputColumn xs then captureFieldReference r expr s2 else s2)"
      using k1 capturesKept_same[OF chain2, of k] by (blast intro: capturesKept_trans)
    then show ?thesis using 3 by blast
  next
    case (DereferenceTypedExpr t index xs)
    then obtain ins' s1 r s2 where 1: "compileInputs n reg fc ecf expr (shouldFlatten expr fc) xs s = Some (Inr (ins', s1))"
      and 2: "allocate (makeExpr (FieldReference (FieldIndex index)) t ins' True) s1 = (r, s2)"
      and 3: "finishCompile reg ecf expr (Some r) s2 = Inr (p, s')"
      using c None by (auto simp: getAlreadyCompiled_def split: option.splits sum.splits prod.splits)
    have k1: "capturesKept k s s1" using 1 inputs DereferenceTypedExpr by (intro ins) simp_all
    have "capturesKept k s1 s2" using allocate_chain[OF 2] by (rule capturesKept_same)
    then show ?thesis using k1 3 by (blast intro: capturesKept_trans)
  next
    case (CallTypedExpr t name xs)
    then obtain ins' s1 r s2 where 1: "compileInputs n reg fc ecf expr (shouldFlatten expr fc) xs s = Some (Inr (ins', s1))"
      and 2: "compileCall reg t name ins' s1 = Inr (r, s2)"
      and 3: "finishCompile reg ecf expr (Some r) s2 = Inr (p, s')"
      using c None by (auto simp: getAlreadyCompiled_def split: option.splits sum.splits prod.splits)
    have k1: "capturesKept k s s1" using 1 inputs CallTypedExpr by (intro ins) simp_all
    have "capturesKept k s1 s2" using compileCall_chain[OF 2] by (rule capturesKept_same)
    then show ?thesis using k1 3 by (blast intro: capturesKept_trans)
  next
    case (CastTypedExpr t xs isTryCast)
    then obtain ins' s1 r s2 where 1: "compileInputs n reg fc ecf expr (shouldFlatten expr fc) xs s = Some (Inr (ins', s1))"
      and 2: "compileCast reg t isTryCast ins' s1 = Inr (r, s2)"
      and 3: "finishCompile reg ecf expr r s2 = Inr (p, s')"
      using c None by (auto simp: getAlreadyCompiled_def split: option.splits sum.splits prod.splits)
    have k1: "capturesKept k s s1" using 1 inputs CastTypedExpr by (intro ins) simp_all
    have "capturesKept k s1 s2" using compileCast_chain[OF 2] by (rule capturesKept_same)
    then show ?thesis using k1 3 by (blast intro: capturesKept_trans)
  next
    case (ConcatTypedExpr t xs)
    then obtain ins' s1 r s2 where 1: "compileInputs n reg fc ecf expr (shouldFlatten expr fc) xs s = Some (Inr (ins', s1))"
      and 2: "getSpecialForm reg kRowConstructor t ins' s1 = (r, s2)"
      and 3: "finishCompile reg ecf expr r s2 = Inr (p, s')"
      using c None by (auto simp: getAlreadyCompiled_def split: option.splits sum.splits prod.splits)
    have k1: "capturesKept k s s1" using 1 inputs ConcatTypedExpr by (intro ins) simp_all
    have "capturesKept k s1 s2" using getSpecialForm_chain[OF 2] by (rule capturesKept_same)
    then show ?thesis using k1 3 by (blast intro: capturesKept_trans)
  next
    case (LambdaTypedExpr signature body)
    then obtain r s2 where 2: "compileLambda n reg fc ecf signature body s = Some (Inr (r, s2))"
      and 3: "finishCompile reg ecf expr r s2 = Inr (p, s')"
      using c None by (auto simp: getAlreadyCompiled_def split: option.splits sum.splits prod.splits)
    have f: "freeReferences body - set (map fst signature) \<subseteq> boundNames k (scopeChain s)"
      using free LambdaTypedExpr by simp
    have "capturesKept k s s2"
      by (rule compileLambda_kept[rotated, OF 2 f]) (erule IH, assumption)
    then show ?thesis using 3 by blast
  qed
  then obtain result s2 where k2: "capturesKept k s s2"
    and fin: "finishCompile reg ecf expr result s2 = Inr (p, s')" by blast
  have "capturesKept k s2 s'" using finishCompile_captures[OF fin] by (rule capturesKept_chain)
  with k2 show ?thesis by (rule capturesKept_trans)
qed

lemma compileExpression_kept:
  assumes "rewritesKeepReferences reg"
  shows "compileExpression n reg fc ecf expr s = Some (Inr (p, s'))
     \<Longrightarrow> freeReferences expr \<subseteq> boundNames k (scopeChain s) \<Longrightarrow> capturesKept k s s'"
proof (induction n arbitrary: expr s p s' k)
  case 0
  then show ?case by simp
next
  case (Suc n)
  show ?case
  proof (cases "rewriteExpression (expressionRewrites reg) expr")
    case None
    then have c: "compileRewrittenExpression n reg fc ecf expr s = Some (Inr (p, s'))"
      using Suc.prems by simp
    show ?thesis
      by (rule compileRewrittenExpression_kept[rotated, OF c Suc.prems(2)]) (erule Suc.IH, assumption)
  next
    case (Some rewritten)
    let ?s = "s\<lparr>scope := (scope s)\<lparr>rewrittenExpressions := rewrittenExpressions (scope s) @ [rewritten]\<rparr>\<rparr>"
    have c: "compileRewrittenExpression n reg fc ecf rewritten ?s = Some (Inr (p, s'))"
      using Suc.prems Some by simp
    have "freeReferences rewritten \<subseteq> freeReferences expr"
      using assms Some by (auto simp: rewritesKeepReferences_def)
    moreover have "boundNames k (scopeChain ?s) = boundNames k (scopeChain s)"
      using rewritten_push_extends by (rule extends_boundNames)
    ultimately have f: "freeReferences rewritten \<subseteq> boundNames k (scopeChain ?s)"
      using Suc.prems(2) by auto
    have "capturesKept k ?s s'"
      by (rule compileRewrittenExpression_kept[rotated, OF c f]) (erule Suc.IH, assumption)
    moreover have "capturesKept k s ?s"
      by (rule capturesKept_chain) (simp add: scopeChain_def captureLists_def)
    ultimately show ?thesis by (blast intro: capturesKept_trans)
  qed
qed

lemma compileLambda_no_captures:
  assumes "rewritesKeepReferences reg"
    and c: "compileLambda n reg fc ecf signature body s = Some (Inr (po, s'))"
    and free: "freeReferences body \<subseteq> set (map fst signature)"
  shows "\<exists>p compiledBody. po = Some p \<and> node (heap s' p) = LambdaExpr signature [] compiledBody"
proof -
  let ?pushed = "s\<lparr>scope := newScope (map fst signature), parents := scope s # parents s\<rparr>"
  have f: "freeReferences body - set (map fst signature) \<subseteq> boundNames 0 (scopeChain s)"
    using free by auto
  have "\<exists>b s1. compileExpression n reg fc ecf body ?pushed = Some (Inr (b, s1))
           \<and> finishLambda signature b s1 = Inr (po, s') \<and> capturesKept (Suc 0) ?pushed s1"
    by (rule compileLambda_body[rotated, OF c f]) (erule compileExpression_kept[OF assms(1)], assumption)
  then obtain b s1 where 1: "compileExpression n reg fc ecf body ?pushed = Some (Inr (b, s1))"
    and 2: "finishLambda signature b s1 = Inr (po, s')" by blast
  have "freeReferences body \<subseteq> boundNames 0 (scopeChain ?pushed)"
    using free by (simp add: scopeChain_def boundNames_simps newScope_def)
  then have "capturesKept 0 ?pushed s1" using 1 by (intro compileExpression_kept[OF assms(1)])
  then have "captureLists (scope s1) = ([], [], [])"
    by (simp add: capturesKept_def scopeChain_def captureLists_def newScope_def)
  then show ?thesis using finishLambda_no_captures[OF 2] by blast
qed

lemma definingScope_locals:
  "map locals a = map locals b \<Longrightarrow> definingScope x a = definingScope x b"
proof -
  assume eq: "map locals a = map locals b"
  have "definingScope x c = length (takeWhile (\<lambda>l. x \<notin> set l) (butlast (map locals c)))" for c
  proof -
    have "takeWhile (\<lambda>l. x \<notin> set l) (butlast (map locals c))
        = map locals (takeWhile (\<lambda>sc. x \<notin> set (locals sc)) (butlast c))"
      by (simp only: map_butlast[symmetric] takeWhile_map comp_def)
    then show ?thesis by (simp add: definingScope_def)
  qed
  then show ?thesis using eq by simp
qed

lemma captureDiscovery_captureLists:
  assumes "map locals a = map locals b" "map captureLists a = map captureLists b"
  shows "map captureLists (captureDiscovery x r fa a) = map captureLists (captureDiscovery x r fa b)"
proof -
  define g where "g = (\<lambda>(c, rs, fs). if x \<in> set c then (c, rs, fs) else (c @ [x], rs @ [r], fs @ [fa]))"
  have f: "captureLists (if x \<in> set (capture sc) then sc else addCapture x r fa sc) = g (captureLists sc)" for sc
    by (simp add: captureLists_def addCapture_def g_def)
  have "map captureLists (captureDiscovery x r fa c)
      = map g (take (definingScope x c) (map captureLists c)) @ drop (definingScope x c) (map captureLists c)" for c
    by (simp add: captureDiscovery_def f comp_def take_map drop_map)
  then show ?thesis using assms definingScope_locals[OF assms(1), of x] by simp
qed

lemma compileInputs_input_row:
  "list_all isInputKind ins \<Longrightarrow> isFieldAccessKind expr \<Longrightarrow>
     compileInputs n reg fc ecf expr fl ins s = Some (Inr ([], s))"
  by (induction ins) simp_all

lemma isInputColumn_input_row: "list_all isInputKind ins \<Longrightarrow> isInputColumn ins"
  by (cases ins) (simp_all add: isInputColumn_def)

lemma compileRewrittenExpression_reference:
  assumes closed: "capturesClosed (scopeChain s)"
    and cols: "list_all isInputKind ins"
    and absent: "visited (scope s) (FieldAccessTypedExpr t x ins) = None"
    and run: "compileRewrittenExpression n reg fc ecf (FieldAccessTypedExpr t x ins) s = Some (Inr (p, s'))"
  shows "map captureLists (scopeChain s')
           = map captureLists (captureDiscovery x (nextPtr s) (FieldAccessTypedExpr t x ins) (scopeChain s))"
proof -
  let ?e = "FieldAccessTypedExpr t x ins"
  let ?r = "nextPtr s"
  obtain s2 where a: "allocate (makeExpr (FieldReference (FieldName x)) t [] True) s = (?r, s2)"
    by (simp add: allocate_def)
  have i: "compileInputs n reg fc ecf ?e (shouldFlatten ?e fc) ins s = Some (Inr ([], s))"
    using cols by (intro compileInputs_input_row) simp_all
  have col: "isInputColumn ins" using cols by (rule isInputColumn_input_row)
  have fin: "finishCompile reg ecf ?e (Some ?r) (captureFieldReference ?r ?e s2) = Inr (p, s')"
    using run absent i a col
    by (auto simp: getAlreadyCompiled_def split: option.splits sum.splits prod.splits)
  have chain2: "scopeChain s2 = scopeChain s" using a by (rule allocate_chain)
  have "field (heap s2 ?r) = x" using allocate_heap[OF a] by (simp add: makeExpr_def)
  then have "scopeChain (captureFieldReference ?r ?e s2) = captureChain x ?r ?e (scopeChain s)"
    unfolding captureFieldReference_chain chain2 by simp
  also have "\<dots> = captureDiscovery x ?r ?e (scopeChain s)"
    unfolding captureDiscovery_def using closed by (rule captureChain_discovery)
  finally show ?thesis using finishCompile_captures[OF fin] by simp
qed

lemma compileExpression_reference:
  assumes closed: "capturesClosed (scopeChain s)"
    and key: "afterRewrite reg expr = FieldAccessTypedExpr t x ins"
    and cols: "list_all isInputKind ins"
    and absent: "visited (scope s) (FieldAccessTypedExpr t x ins) = None"
    and run: "compileExpression n reg fc ecf expr s = Some (Inr (p, s'))"
  shows "map captureLists (scopeChain s')
           = map captureLists (captureDiscovery x (nextPtr s) (FieldAccessTypedExpr t x ins) (scopeChain s))"
proof -
  let ?e = "FieldAccessTypedExpr t x ins"
  obtain m where n: "n = Suc m" using run by (cases n) auto
  define push :: "CompileState \<Rightarrow> CompileState" where "push = (\<lambda>t. case rewriteExpression (expressionRewrites reg) expr of
      Some rewritten \<Rightarrow> t\<lparr>scope := (scope t)\<lparr>rewrittenExpressions := rewrittenExpressions (scope t) @ [rewritten]\<rparr>\<rparr>
    | None \<Rightarrow> t)"
  have run': "compileRewrittenExpression m reg fc ecf ?e (push s) = Some (Inr (p, s'))"
    using run key unfolding n by (simp add: afterRewrite_def push_def split: option.splits)
  have same: "map locals (scopeChain (push s)) = map locals (scopeChain s)"
    "map captureLists (scopeChain (push s)) = map captureLists (scopeChain s)"
    "visited (scope (push s)) = visited (scope s)" "nextPtr (push s) = nextPtr s"
    "map (\<lambda>sc. (locals sc, capture sc)) (scopeChain (push s)) = map (\<lambda>sc. (locals sc, capture sc)) (scopeChain s)"
    by (simp_all add: push_def scopeChain_def captureLists_def split: option.splits)
  have closed': "capturesClosed (scopeChain (push s))"
    using closed capturesClosed_cong[OF same(5)] by simp
  have "map captureLists (scopeChain s')
           = map captureLists (captureDiscovery x (nextPtr (push s)) ?e (scopeChain (push s)))"
    using closed' cols _ run' by (rule compileRewrittenExpression_reference) (simp add: same absent)
  then show ?thesis
    unfolding same(4) using captureDiscovery_captureLists[OF same(1,2)] by simp
qed

lemma compileExpression_known:
  assumes found: "visited (scope s) (afterRewrite reg expr) = Some q"
  shows "\<exists>s'. compileExpression (Suc m) reg fc ecf expr s = Some (Inr (q, s'))
           \<and> map captureLists (scopeChain s') = map captureLists (scopeChain s)"
proof -
  define push :: "CompileState \<Rightarrow> CompileState" where "push = (\<lambda>t. case rewriteExpression (expressionRewrites reg) expr of
      Some rewritten \<Rightarrow> t\<lparr>scope := (scope t)\<lparr>rewrittenExpressions := rewrittenExpressions (scope t) @ [rewritten]\<rparr>\<rparr>
    | None \<Rightarrow> t)"
  have unfold: "compileExpression (Suc m) reg fc ecf expr s
      = compileRewrittenExpression m reg fc ecf (afterRewrite reg expr) (push s)"
    by (simp add: afterRewrite_def push_def split: option.splits)
  have v: "visited (scope (push s)) (afterRewrite reg expr) = Some q"
    using found by (simp add: push_def split: option.splits)
  have c: "map captureLists (scopeChain (push s)) = map captureLists (scopeChain s)"
    by (simp add: push_def scopeChain_def captureLists_def split: option.splits)
  have "compileExpression (Suc m) reg fc ecf expr s = Some (Inr (q, reuseCompiled q (push s)))"
    unfolding unfold using v by (simp add: getAlreadyCompiled_def)
  then show ?thesis using c by (simp add: reuseCompiled_chain)
qed

lemma wellCaptured_Cons:
  "wellCaptured (sc # rest) = ((rest \<noteq> [] \<longrightarrow> scopeCaptured sc) \<and> wellCaptured rest)"
  by (cases rest) auto

lemma wellScoped_tl: "wellScoped (sc # rest) \<Longrightarrow> wellScoped rest"
  by (auto simp: wellScoped_def wellCaptured_Cons dest: capturesClosed_tl)

lemma wellScoped_head:
  assumes "wellScoped (sc # rest)" "locals sc' = locals sc" "capture sc' = capture sc"
    and "rest \<noteq> [] \<Longrightarrow> scopeCaptured sc'"
  shows "wellScoped (sc' # rest)"
proof -
  have "map (\<lambda>sc. (locals sc, capture sc)) (sc' # rest) = map (\<lambda>sc. (locals sc, capture sc)) (sc # rest)"
    using assms(2,3) by simp
  then have "capturesClosed (sc' # rest) = capturesClosed (sc # rest)" by (rule capturesClosed_cong)
  then show ?thesis using assms(1,4) by (auto simp: wellScoped_def wellCaptured_Cons)
qed

lemma scopeCaptured_rewritten:
  "scopeCaptured (sc\<lparr>rewrittenExpressions := rs\<rparr>) = scopeCaptured sc"
  by (simp add: scopeCaptured_def)

lemma scopeCaptured_visited:
  assumes "scopeCaptured sc"
    and "\<And>t x ins. expr = FieldAccessTypedExpr t x ins \<Longrightarrow> isInputColumn ins
           \<Longrightarrow> x \<in> set (locals sc) \<or> x \<in> set (capture sc)"
  shows "scopeCaptured (sc\<lparr>visited := (visited sc)(expr := Some c)\<rparr>)"
proof -
  have old: "\<And>t x ins p. visited sc (FieldAccessTypedExpr t x ins) = Some p \<Longrightarrow> isInputColumn ins
      \<Longrightarrow> x \<in> set (locals sc) \<or> x \<in> set (capture sc)"
    using assms(1) unfolding scopeCaptured_def by blast
  have "x \<in> set (locals sc) \<or> x \<in> set (capture sc)"
    if v: "((visited sc)(expr := Some c)) (FieldAccessTypedExpr t x ins) = Some p" and i: "isInputColumn ins"
    for t x ins p
  proof (cases "expr = FieldAccessTypedExpr t x ins")
    case True
    then show ?thesis using i by (rule assms(2))
  next
    case False
    then have "visited sc (FieldAccessTypedExpr t x ins) = Some p" using v by simp
    then show ?thesis using i by (rule old)
  qed
  then have "\<forall>t x ins p. ((visited sc)(expr := Some c)) (FieldAccessTypedExpr t x ins) = Some p \<and> isInputColumn ins
      \<longrightarrow> x \<in> set (locals sc) \<or> x \<in> set (capture sc)"
    by blast
  then show ?thesis using assms(1) unfolding scopeCaptured_def by simp
qed

lemma scopeCaptured_newScope: "scopeCaptured (newScope names)"
  by (simp add: scopeCaptured_def newScope_def)

lemma scopeCaptured_addCapture:
  "scopeCaptured sc \<Longrightarrow> scopeCaptured (addCapture x r (FieldAccessTypedExpr t x ins) sc)"
  by (auto simp: scopeCaptured_def addCapture_def)

lemma captureChain_wellCaptured:
  "wellCaptured scopes \<Longrightarrow> wellCaptured (captureChain x r (FieldAccessTypedExpr t x ins) scopes)"
proof (induction x r "FieldAccessTypedExpr t x ins" scopes rule: captureChain.induct)
  case (1 name r sc parent rest)
  show ?case
  proof (cases "name \<in> set (locals sc) \<or> name \<in> set (capture sc)")
    case True
    then show ?thesis using 1 by simp
  next
    case False
    have ih: "wellCaptured (captureChain name r (FieldAccessTypedExpr t name ins) (parent # rest))"
      using "1.hyps"[OF False] "1.prems" by simp
    have len: "length (captureChain name r (FieldAccessTypedExpr t name ins) (parent # rest)) = Suc (length rest)"
      by (simp only: captureChain_length) simp
    have "scopeCaptured (addCapture name r (FieldAccessTypedExpr t name ins) sc)"
      using "1.prems" by (simp add: scopeCaptured_addCapture)
    then show ?thesis using False ih len
      by (cases "captureChain name r (FieldAccessTypedExpr t name ins) (parent # rest)")
         (simp_all add: wellCaptured_Cons)
  qed
qed simp_all

lemma captureChain_head_captured:
  assumes "captureChain x r fa (sc # parent # rest) = sc' # others"
  shows "x \<in> set (locals sc') \<or> x \<in> set (capture sc')"
  using captureChain_hd[OF assms] by auto

lemma wellScoped_initialState: "wellScoped (scopeChain (initialState es))"
  by (simp add: wellScoped_def scopeChain_def initialState_def)

lemma finishCompile_chain:
  assumes "finishCompile reg ecf expr result t = Inr (c, u)"
  shows "scopeChain u = (scope t)\<lparr>visited := (visited (scope t))(expr := Some c)\<rparr> # parents t"
proof -
  obtain r where r: "result = Some r" using assms by (cases result) (auto simp: finishCompile_def)
  let ?t1 = "t\<lparr>heap := computeMetadata (heap t) r\<rparr>"
  obtain t3 where t3: "scopeChain t3 = scopeChain t"
    and u: "u = t3\<lparr>scope := (scope t3)\<lparr>visited := (visited (scope t3))(expr := Some c)\<rparr>\<rparr>"
  proof (cases "ecf \<and> \<not> isConstant (heap ?t1 r)")
    case True
    then obtain t2 where f: "tryFoldIfConstant reg r ?t1 = Inr (c, t2)"
      and u: "u = (t2\<lparr>exprSet := clear (exprSet t2)\<rparr>)\<lparr>scope := (scope t2)\<lparr>visited := (visited (scope t2))(expr := Some c)\<rparr>\<rparr>"
      using assms r by (auto simp: finishCompile_def Let_def split: sum.splits)
    have "scopeChain (t2\<lparr>exprSet := clear (exprSet t2)\<rparr>) = scopeChain t"
      using tryFoldIfConstant_chain[OF f] by (simp add: scopeChain_def)
    then show ?thesis using that u by simp
  next
    case False
    then have "u = ?t1\<lparr>scope := (scope ?t1)\<lparr>visited := (visited (scope ?t1))(expr := Some c)\<rparr>\<rparr>"
      using assms r by (auto simp: finishCompile_def Let_def)
    moreover have "scopeChain ?t1 = scopeChain t" by (simp add: scopeChain_def)
    ultimately show ?thesis using that by blast
  qed
  show ?thesis unfolding u using t3 by (auto simp: scopeChain_def)
qed

lemma visited_update_wellScoped:
  assumes ws: "wellScoped (sc # rest)"
    and fa: "\<And>ty x ins. expr = FieldAccessTypedExpr ty x ins \<Longrightarrow> isInputColumn ins \<Longrightarrow> rest \<noteq> []
           \<Longrightarrow> x \<in> set (locals sc) \<or> x \<in> set (capture sc)"
  shows "wellScoped (sc\<lparr>visited := (visited sc)(expr := Some c)\<rparr> # rest)"
proof (rule wellScoped_head[OF ws])
  show "locals (sc\<lparr>visited := (visited sc)(expr := Some c)\<rparr>) = locals sc"
    "capture (sc\<lparr>visited := (visited sc)(expr := Some c)\<rparr>) = capture sc" by simp_all
  assume ne: "rest \<noteq> []"
  then have "scopeCaptured sc" using ws by (simp add: wellScoped_def wellCaptured_Cons)
  then show "scopeCaptured (sc\<lparr>visited := (visited sc)(expr := Some c)\<rparr>)"
    using fa ne by (intro scopeCaptured_visited) auto
qed

lemma finishCompile_wellScoped:
  assumes "wellScoped (scopeChain t)"
    and "\<And>ty x ins. expr = FieldAccessTypedExpr ty x ins \<Longrightarrow> isInputColumn ins \<Longrightarrow> parents t \<noteq> []
           \<Longrightarrow> x \<in> set (locals (scope t)) \<or> x \<in> set (capture (scope t))"
    and "finishCompile reg ecf expr result t = Inr (c, u)"
  shows "wellScoped (scopeChain u)"
  unfolding finishCompile_chain[OF assms(3)]
  using assms(1,2) by (intro visited_update_wellScoped) (auto simp: scopeChain_def)

lemma captureFieldReference_wellScoped:
  assumes "wellScoped (scopeChain s)" "field (heap s r) = x"
  shows "wellScoped (scopeChain (captureFieldReference r (FieldAccessTypedExpr t x ins) s))"
  using assms captureChain_closed captureChain_wellCaptured
  unfolding captureFieldReference_chain wellScoped_def by auto

lemma captureFieldReference_head:
  assumes "parents s \<noteq> []" "field (heap s r) = x"
  shows "x \<in> set (locals (scope (captureFieldReference r fa s)))
         \<or> x \<in> set (capture (scope (captureFieldReference r fa s)))"
proof -
  obtain q rest where ps: "parents s = q # rest" using assms(1) by (cases "parents s") auto
  have c: "scopeChain (captureFieldReference r fa s) = captureChain x r fa (scope s # q # rest)"
    unfolding captureFieldReference_chain assms(2) by (simp add: scopeChain_def ps)
  then have "captureChain x r fa (scope s # q # rest)
      = scope (captureFieldReference r fa s) # parents (captureFieldReference r fa s)"
    by (simp add: scopeChain_def)
  then show ?thesis by (rule captureChain_head_captured)
qed

lemma captureFieldReference_parents:
  "(parents (captureFieldReference r fa s) = []) = (parents s = [])"
proof -
  have "length (scopeChain (captureFieldReference r fa s)) = length (scopeChain s)"
    unfolding captureFieldReference_chain by (rule captureChain_length)
  then have "length (parents (captureFieldReference r fa s)) = length (parents s)"
    by (simp add: scopeChain_def)
  then show ?thesis by (metis length_0_conv)
qed

lemma captureReferencesOf_wellScoped:
  assumes "wellScoped (scopeChain s)"
    and "\<forall>z \<in> set zs. \<forall>t x ins. fst z = FieldAccessTypedExpr t x ins \<longrightarrow> parents s \<noteq> []
            \<longrightarrow> x \<in> set (locals (scope s)) \<or> x \<in> set (capture (scope s))"
    and "captureReferencesOf zs s = (refs, s')"
  shows "wellScoped (scopeChain s') \<and> length refs = length zs"
  using assms
proof (induction zs arbitrary: s refs s')
  case Nil
  then show ?case by simp
next
  case (Cons z zs)
  obtain expr inner where z: "z = (expr, inner)" by (cases z)
  show ?case
  proof (cases "visited (scope s) expr")
    case (Some reference)
    then obtain refs' where c: "captureReferencesOf zs s = (refs', s')" and r: "refs = reference # refs'"
      using Cons.prems(3) z by (auto simp: getAlreadyCompiled_def split: prod.splits)
    have "wellScoped (scopeChain s') \<and> length refs' = length zs"
      using Cons.prems(1) _ c by (rule Cons.IH) (use Cons.prems(2) in auto)
    then show ?thesis using r by simp
  next
    case None
    obtain reference s1 where a: "allocate (makeExpr (FieldReference (FieldName (field (heap s inner))))
                            (exprType (heap s inner)) [] True) s = (reference, s1)"
      by (simp add: allocate_def)
    let ?s2 = "s1\<lparr>scope := (scope s1)\<lparr>visited := (visited (scope s1))(expr := Some reference)\<rparr>\<rparr>"
    have chain1: "scopeChain s1 = scopeChain s" using a by (rule allocate_chain)
    then have sp: "scope s1 = scope s" "parents s1 = parents s" by (simp_all add: scopeChain_def)
    have chain2: "scopeChain ?s2 = (scope s)\<lparr>visited := (visited (scope s))(expr := Some reference)\<rparr> # parents s"
      by (simp add: scopeChain_def sp)
    have w2: "wellScoped (scopeChain ?s2)"
      unfolding chain2 using Cons.prems(1,2) z
      by (intro visited_update_wellScoped) (auto simp: scopeChain_def)
    obtain refs' where c: "captureReferencesOf zs ?s2 = (refs', s')" and r: "refs = reference # refs'"
      using Cons.prems(3) z None a by (auto simp: getAlreadyCompiled_def split: prod.splits)
    have "wellScoped (scopeChain s') \<and> length refs' = length zs"
      using w2 _ c by (rule Cons.IH) (use Cons.prems(2) sp in auto)
    then show ?thesis using r by simp
  qed
qed

lemma finishLambda_wellScoped:
  assumes ws: "wellScoped (scopeChain s1)"
    and fin: "finishLambda signature body s1 = Inr (po, s')"
  shows "wellScoped (scopeChain s')
         \<and> (\<exists>p refs. po = Some p \<and> node (heap s' p) = LambdaExpr signature refs body
               \<and> length refs = length (capture (scope s1)))"
proof -
  obtain enclosing rest where ps: "parents s1 = enclosing # rest"
    using fin by (cases "parents s1") (auto simp: finishLambda_def)
  let ?s2 = "s1\<lparr>scope := enclosing, parents := rest\<rparr>"
  let ?zs = "zip (captureFieldAccesses (scope s1)) (captureReferences (scope s1))"
  have w2: "wellScoped (scopeChain ?s2)"
    using ws ps by (auto simp: scopeChain_def dest: wellScoped_tl)
  have sc: "scopeCaptured (scope s1)"
    using ws ps by (simp add: scopeChain_def wellScoped_def)
  have closed: "capturesClosed (scope s1 # enclosing # rest)"
    using ws ps by (simp add: scopeChain_def wellScoped_def)
  have named: "\<forall>z \<in> set ?zs. \<forall>t x ins. fst z = FieldAccessTypedExpr t x ins \<longrightarrow> parents ?s2 \<noteq> []
            \<longrightarrow> x \<in> set (locals (scope ?s2)) \<or> x \<in> set (capture (scope ?s2))"
  proof (intro ballI allI impI)
    fix z t x ins
    assume z: "z \<in> set ?zs" and e: "fst z = FieldAccessTypedExpr t x ins" and ne: "parents ?s2 \<noteq> []"
    obtain a b where ab: "z = (a, b)" by (cases z)
    have "fst z \<in> set (captureFieldAccesses (scope s1))"
      using z unfolding ab by (simp add: set_zip_leftD)
    then have "x \<in> set (capture (scope s1))" using sc e unfolding scopeCaptured_def by metis
    moreover obtain g rest' where "rest = g # rest'" using ne by (cases rest) auto
    ultimately show "x \<in> set (locals (scope ?s2)) \<or> x \<in> set (capture (scope ?s2))"
      using closed by auto
  qed
  obtain refs s3 where c: "captureReferencesOf ?zs ?s2 = (refs, s3)"
    by (cases "captureReferencesOf ?zs ?s2")
  have w3: "wellScoped (scopeChain s3)" and len: "length refs = length ?zs"
    using captureReferencesOf_wellScoped[OF w2 named c] by simp_all
  obtain p where a: "allocate (makeExpr (LambdaExpr signature refs body)
       (FunctionType (map snd signature) (exprType (heap s3 body))) [] True) s3 = (p, s')"
    and po: "po = Some p"
    using fin ps c by (auto simp: finishLambda_def Let_def split: prod.splits)
  have "scopeChain s' = scopeChain s3" using a by (rule allocate_chain)
  moreover have "node (heap s' p) = LambdaExpr signature refs body"
    using allocate_heap[OF a] by (simp add: makeExpr_def)
  moreover have "length refs = length (capture (scope s1))"
    using len sc by (simp add: scopeCaptured_def)
  ultimately show ?thesis using w3 po by simp
qed

lemma wellScoped_push: "wellScoped scopes \<Longrightarrow> wellScoped (newScope names # scopes)"
  by (simp add: wellScoped_def capturesClosed_push wellCaptured_Cons scopeCaptured_newScope)

lemma wellScoped_rewritten:
  assumes "wellScoped (scopeChain s)"
  shows "wellScoped (scopeChain (s\<lparr>scope := (scope s)\<lparr>rewrittenExpressions := rs\<rparr>\<rparr>))"
proof -
  have "wellScoped ((scope s)\<lparr>rewrittenExpressions := rs\<rparr> # parents s)"
  proof (rule wellScoped_head[of "scope s"])
    show "wellScoped (scope s # parents s)" using assms by (simp add: scopeChain_def)
    show "parents s \<noteq> [] \<Longrightarrow> scopeCaptured ((scope s)\<lparr>rewrittenExpressions := rs\<rparr>)"
      using assms by (simp add: scopeChain_def wellScoped_def wellCaptured_Cons scopeCaptured_rewritten)
  qed simp_all
  then show ?thesis by (simp add: scopeChain_def)
qed

lemma compileFlat_wellScoped:
  assumes IH: "\<And>e s p s'. compileExpression n reg fc ecf e s = Some (Inr (p, s'))
      \<Longrightarrow> wellScoped (scopeChain s) \<Longrightarrow> wellScoped (scopeChain s')"
  shows "compileFlat n reg fc ecf ins s = Some (Inr (ps, s'))
     \<Longrightarrow> wellScoped (scopeChain s) \<Longrightarrow> wellScoped (scopeChain s')"
proof (induction ins arbitrary: s ps s')
  case Nil
  then show ?case by simp
next
  case (Cons input rest)
  then obtain p s1 others where 1: "compileExpression n reg fc ecf input s = Some (Inr (p, s1))"
    and 2: "compileFlat n reg fc ecf rest s1 = Some (Inr (others, s'))"
    by (auto split: option.splits sum.splits prod.splits)
  show ?case using 2 IH[OF 1 Cons.prems(2)] by (rule Cons.IH)
qed

lemma compileInputs_wellScoped:
  assumes IH: "\<And>e s p s'. compileExpression n reg fc ecf e s = Some (Inr (p, s'))
      \<Longrightarrow> wellScoped (scopeChain s) \<Longrightarrow> wellScoped (scopeChain s')"
  shows "compileInputs n reg fc ecf expr fl ins s = Some (Inr (ps, s'))
     \<Longrightarrow> wellScoped (scopeChain s) \<Longrightarrow> wellScoped (scopeChain s')"
proof (induction ins arbitrary: s ps s')
  case Nil
  then show ?case by simp
next
  case (Cons input rest)
  show ?case
  proof (cases "isInputKind input")
    case True
    then have "compileInputs n reg fc ecf expr fl rest s = Some (Inr (ps, s'))"
      using Cons.prems by (auto split: if_splits)
    then show ?thesis using Cons.prems(2) by (rule Cons.IH)
  next
    case False
    then obtain compiled s1 others where
      1: "(case fl of Some flattenCall \<Rightarrow> compileFlat n reg fc ecf (flattenInput input flattenCall []) s
            | None \<Rightarrow> (case compileExpression n reg fc ecf input s of None \<Rightarrow> None
                 | Some (Inl e) \<Rightarrow> Some (Inl e) | Some (Inr (p, s1)) \<Rightarrow> Some (Inr ([p], s1))))
          = Some (Inr (compiled, s1))"
      and 2: "compileInputs n reg fc ecf expr fl rest s1 = Some (Inr (others, s'))"
      using Cons.prems(1) by (auto split: option.splits sum.splits prod.splits)
    have "wellScoped (scopeChain s1)"
    proof (cases fl)
      case None
      then obtain p where c: "compileExpression n reg fc ecf input s = Some (Inr (p, s1))"
        using 1 by (auto split: option.splits sum.splits prod.splits)
      show ?thesis using c Cons.prems(2) by (rule IH)
    next
      case (Some flattenCall)
      then have c: "compileFlat n reg fc ecf (flattenInput input flattenCall []) s = Some (Inr (compiled, s1))"
        using 1 by simp
      show ?thesis
        by (rule compileFlat_wellScoped[rotated, OF c Cons.prems(2)]) (erule IH, assumption)
    qed
    with 2 show ?thesis by (rule Cons.IH)
  qed
qed

lemma compileLambda_wellScoped:
  assumes IH: "\<And>e s p s'. compileExpression n reg fc ecf e s = Some (Inr (p, s'))
      \<Longrightarrow> wellScoped (scopeChain s) \<Longrightarrow> wellScoped (scopeChain s')"
    and c: "compileLambda n reg fc ecf signature body s = Some (Inr (po, s'))"
    and ws: "wellScoped (scopeChain s)"
  shows "wellScoped (scopeChain s')
         \<and> (\<exists>p refs b s1. compileExpression n reg fc ecf body
                 (s\<lparr>scope := newScope (map fst signature), parents := scope s # parents s\<rparr>) = Some (Inr (b, s1))
               \<and> po = Some p \<and> node (heap s' p) = LambdaExpr signature refs b
               \<and> length refs = length (capture (scope s1)))"
proof -
  let ?pushed = "s\<lparr>scope := newScope (map fst signature), parents := scope s # parents s\<rparr>"
  obtain b s1 where 1: "compileExpression n reg fc ecf body ?pushed = Some (Inr (b, s1))"
    and 2: "finishLambda signature b s1 = Inr (po, s')"
    using c by (auto split: option.splits sum.splits prod.splits)
  have pw: "wellScoped (scopeChain ?pushed)"
    using wellScoped_push[OF ws] by (simp add: scopeChain_def)
  have "wellScoped (scopeChain s1)" using 1 pw by (rule IH)
  note f = finishLambda_wellScoped[OF this 2]
  have "\<exists>p refs b s1. compileExpression n reg fc ecf body ?pushed = Some (Inr (b, s1))
               \<and> po = Some p \<and> node (heap s' p) = LambdaExpr signature refs b
               \<and> length refs = length (capture (scope s1))"
    using f[THEN conjunct2] 1 by (elim exE conjE) (intro exI conjI, assumption+)
  then show ?thesis using f[THEN conjunct1] by (rule conjI[rotated])
qed

lemma tail_not_reference:
  assumes "wellScoped (scopeChain s2)" "finishCompile reg ecf expr result s2 = Inr (p, s')"
    "\<not> isFieldAccessKind expr"
  shows "\<exists>result s2. wellScoped (scopeChain s2)
          \<and> (\<forall>ty x xs. expr = FieldAccessTypedExpr ty x xs \<longrightarrow> isInputColumn xs \<longrightarrow> parents s2 \<noteq> []
                \<longrightarrow> x \<in> set (locals (scope s2)) \<or> x \<in> set (capture (scope s2)))
          \<and> finishCompile reg ecf expr result s2 = Inr (p, s')"
proof (intro exI conjI)
  show "wellScoped (scopeChain s2)" by (rule assms(1))
  show "finishCompile reg ecf expr result s2 = Inr (p, s')" by (rule assms(2))
  show "\<forall>ty x xs. expr = FieldAccessTypedExpr ty x xs \<longrightarrow> isInputColumn xs \<longrightarrow> parents s2 \<noteq> []
                \<longrightarrow> x \<in> set (locals (scope s2)) \<or> x \<in> set (capture (scope s2))"
    using assms(3) by auto
qed

lemma compileRewrittenExpression_wellScoped:
  assumes IH: "\<And>e s p s'. compileExpression n reg fc ecf e s = Some (Inr (p, s'))
      \<Longrightarrow> wellScoped (scopeChain s) \<Longrightarrow> wellScoped (scopeChain s')"
    and c: "compileRewrittenExpression n reg fc ecf expr s = Some (Inr (p, s'))"
    and ws: "wellScoped (scopeChain s)"
  shows "wellScoped (scopeChain s')"
proof (cases "visited (scope s) expr")
  case (Some q)
  then have "s' = reuseCompiled q s" using c by (auto simp: getAlreadyCompiled_def)
  then show ?thesis using ws by (simp add: reuseCompiled_chain)
next
  case None
  have ins: "\<And>xs ps s1. compileInputs n reg fc ecf expr (shouldFlatten expr fc) xs s = Some (Inr (ps, s1))
      \<Longrightarrow> wellScoped (scopeChain s1)"
    by (erule compileInputs_wellScoped[rotated]) (rule ws, erule IH, assumption)
  have "\<exists>result s2. wellScoped (scopeChain s2)
          \<and> (\<forall>ty x xs. expr = FieldAccessTypedExpr ty x xs \<longrightarrow> isInputColumn xs \<longrightarrow> parents s2 \<noteq> []
                \<longrightarrow> x \<in> set (locals (scope s2)) \<or> x \<in> set (capture (scope s2)))
          \<and> finishCompile reg ecf expr result s2 = Inr (p, s')"
  proof (cases expr)
    case (ConstantTypedExpr t v)
    then obtain r s2 where a: "allocate (makeExpr (ConstantExpr v) t [] True) s = (r, s2)"
      and f: "finishCompile reg ecf expr (Some r) s2 = Inr (p, s')"
      using c None by (auto simp: getAlreadyCompiled_def split: option.splits sum.splits prod.splits)
    have "wellScoped (scopeChain s2)" using allocate_chain[OF a] ws by simp
    then show ?thesis using f by (rule tail_not_reference) (simp add: ConstantTypedExpr)
  next
    case (InputTypedExpr t)
    then show ?thesis using c None by (auto simp: getAlreadyCompiled_def)
  next
    case (FieldAccessTypedExpr t name xs)
    then obtain ins' s1 r s2 where 1: "compileInputs n reg fc ecf expr (shouldFlatten expr fc) xs s = Some (Inr (ins', s1))"
      and 2: "allocate (makeExpr (FieldReference (FieldName name)) t ins' True) s1 = (r, s2)"
      and 3: "finishCompile reg ecf expr (Some r) (if isInputColumn xs then captureFieldReference r expr s2 else s2) = Inr (p, s')"
      using c None by (auto simp: getAlreadyCompiled_def split: option.splits sum.splits prod.splits)
    have w2: "wellScoped (scopeChain s2)" using allocate_chain[OF 2] ins[OF 1] by simp
    have fld: "field (heap s2 r) = name" using allocate_heap[OF 2] by (simp add: makeExpr_def)
    let ?s3 = "if isInputColumn xs then captureFieldReference r expr s2 else s2"
    have w3: "wellScoped (scopeChain ?s3)"
    proof (cases "isInputColumn xs")
      case True
      then show ?thesis
        using captureFieldReference_wellScoped[OF w2 fld, of t xs] unfolding FieldAccessTypedExpr by simp
    next
      case False
      then show ?thesis using w2 by simp
    qed
    have h: "name \<in> set (locals (scope ?s3)) \<or> name \<in> set (capture (scope ?s3))"
      if col: "isInputColumn xs" and ne: "parents ?s3 \<noteq> []"
    proof -
      have eq: "?s3 = captureFieldReference r expr s2" using col by simp
      have "parents s2 \<noteq> []" using ne unfolding eq captureFieldReference_parents .
      then show ?thesis unfolding eq using fld by (rule captureFieldReference_head)
    qed
    have "\<forall>ty x ys. expr = FieldAccessTypedExpr ty x ys \<longrightarrow> isInputColumn ys \<longrightarrow> parents ?s3 \<noteq> []
                \<longrightarrow> x \<in> set (locals (scope ?s3)) \<or> x \<in> set (capture (scope ?s3))"
      using h by (simp add: FieldAccessTypedExpr)
    then show ?thesis using w3 3 by blast
  next
    case (DereferenceTypedExpr t index xs)
    then obtain ins' s1 r s2 where 1: "compileInputs n reg fc ecf expr (shouldFlatten expr fc) xs s = Some (Inr (ins', s1))"
      and 2: "allocate (makeExpr (FieldReference (FieldIndex index)) t ins' True) s1 = (r, s2)"
      and 3: "finishCompile reg ecf expr (Some r) s2 = Inr (p, s')"
      using c None by (auto simp: getAlreadyCompiled_def split: option.splits sum.splits prod.splits)
    have "wellScoped (scopeChain s2)" using allocate_chain[OF 2] ins[OF 1] by simp
    then show ?thesis using 3 by (rule tail_not_reference) (simp add: DereferenceTypedExpr)
  next
    case (CallTypedExpr t name xs)
    then obtain ins' s1 r s2 where 1: "compileInputs n reg fc ecf expr (shouldFlatten expr fc) xs s = Some (Inr (ins', s1))"
      and 2: "compileCall reg t name ins' s1 = Inr (r, s2)"
      and 3: "finishCompile reg ecf expr (Some r) s2 = Inr (p, s')"
      using c None by (auto simp: getAlreadyCompiled_def split: option.splits sum.splits prod.splits)
    have "wellScoped (scopeChain s2)" using compileCall_chain[OF 2] ins[OF 1] by simp
    then show ?thesis using 3 by (rule tail_not_reference) (simp add: CallTypedExpr)
  next
    case (CastTypedExpr t xs isTryCast)
    then obtain ins' s1 r s2 where 1: "compileInputs n reg fc ecf expr (shouldFlatten expr fc) xs s = Some (Inr (ins', s1))"
      and 2: "compileCast reg t isTryCast ins' s1 = Inr (r, s2)"
      and 3: "finishCompile reg ecf expr r s2 = Inr (p, s')"
      using c None by (auto simp: getAlreadyCompiled_def split: option.splits sum.splits prod.splits)
    have "wellScoped (scopeChain s2)" using compileCast_chain[OF 2] ins[OF 1] by simp
    then show ?thesis using 3 by (rule tail_not_reference) (simp add: CastTypedExpr)
  next
    case (ConcatTypedExpr t xs)
    then obtain ins' s1 r s2 where 1: "compileInputs n reg fc ecf expr (shouldFlatten expr fc) xs s = Some (Inr (ins', s1))"
      and 2: "getSpecialForm reg kRowConstructor t ins' s1 = (r, s2)"
      and 3: "finishCompile reg ecf expr r s2 = Inr (p, s')"
      using c None by (auto simp: getAlreadyCompiled_def split: option.splits sum.splits prod.splits)
    have "wellScoped (scopeChain s2)" using getSpecialForm_chain[OF 2] ins[OF 1] by simp
    then show ?thesis using 3 by (rule tail_not_reference) (simp add: ConcatTypedExpr)
  next
    case (LambdaTypedExpr signature body)
    then obtain r s2 where 2: "compileLambda n reg fc ecf signature body s = Some (Inr (r, s2))"
      and 3: "finishCompile reg ecf expr r s2 = Inr (p, s')"
      using c None by (auto simp: getAlreadyCompiled_def split: option.splits sum.splits prod.splits)
    have "wellScoped (scopeChain s2)"
      by (rule compileLambda_wellScoped[rotated, OF 2 ws, THEN conjunct1]) (erule IH, assumption)
    then show ?thesis using 3 by (rule tail_not_reference) (simp add: LambdaTypedExpr)
  qed
  then obtain result s2 where w: "wellScoped (scopeChain s2)"
    and h: "\<And>ty x xs. expr = FieldAccessTypedExpr ty x xs \<Longrightarrow> isInputColumn xs \<Longrightarrow> parents s2 \<noteq> []
                \<Longrightarrow> x \<in> set (locals (scope s2)) \<or> x \<in> set (capture (scope s2))"
    and fin: "finishCompile reg ecf expr result s2 = Inr (p, s')" by blast
  show ?thesis using w h fin by (rule finishCompile_wellScoped)
qed

lemma compileExpression_wellScoped:
  "compileExpression n reg fc ecf expr s = Some (Inr (p, s'))
     \<Longrightarrow> wellScoped (scopeChain s) \<Longrightarrow> wellScoped (scopeChain s')"
proof (induction n arbitrary: expr s p s')
  case 0
  then show ?case by simp
next
  case (Suc n)
  show ?case
  proof (cases "rewriteExpression (expressionRewrites reg) expr")
    case None
    then have c: "compileRewrittenExpression n reg fc ecf expr s = Some (Inr (p, s'))"
      using Suc.prems by simp
    show ?thesis
      by (rule compileRewrittenExpression_wellScoped[rotated, OF c Suc.prems(2)]) (erule Suc.IH, assumption)
  next
    case (Some rewritten)
    let ?s = "s\<lparr>scope := (scope s)\<lparr>rewrittenExpressions := rewrittenExpressions (scope s) @ [rewritten]\<rparr>\<rparr>"
    have c: "compileRewrittenExpression n reg fc ecf rewritten ?s = Some (Inr (p, s'))"
      using Suc.prems Some by simp
    have w: "wellScoped (scopeChain ?s)" using Suc.prems(2) by (rule wellScoped_rewritten)
    show ?thesis
      by (rule compileRewrittenExpression_wellScoped[rotated, OF c w]) (erule Suc.IH, assumption)
  qed
qed

lemma known_reference_captured:
  assumes ws: "wellScoped (sc # rest)"
    and v: "visited sc (FieldAccessTypedExpr t x ins) = Some q"
    and col: "isInputColumn ins"
  shows "captureDiscovery x r fa (sc # rest) = sc # rest"
proof -
  have "\<forall>y \<in> set (take (definingScope x (sc # rest)) (sc # rest)). x \<in> set (capture y)"
  proof (cases rest)
    case Nil
    then show ?thesis by (simp add: definingScope_simps)
  next
    case (Cons parent rest')
    have c: "scopeCaptured sc" using ws Cons by (simp add: wellScoped_def)
    have closed: "capturesClosed (sc # rest)" using ws by (simp add: wellScoped_def)
    have xin: "x \<in> set (locals sc) \<or> x \<in> set (capture sc)"
      using c v col unfolding scopeCaptured_def by blast
    show ?thesis
    proof (cases "x \<in> set (locals sc)")
      case True
      then show ?thesis using Cons by (simp add: definingScope_simps)
    next
      case False
      then have cap: "x \<in> set (capture sc)" using xin by simp
      have "\<forall>y \<in> set (take (definingScope x rest) rest). x \<in> set (capture y)"
        using closed cap by (rule captured_above)
      then show ?thesis using False cap Cons by (simp add: definingScope_simps)
    qed
  qed
  then have "map (\<lambda>sc. if x \<in> set (capture sc) then sc else addCapture x r fa sc)
        (take (definingScope x (sc # rest)) (sc # rest)) = take (definingScope x (sc # rest)) (sc # rest)"
    by (intro map_idI) simp
  then show ?thesis unfolding captureDiscovery_def by simp
qed

lemma compileExpression_discovery:
  assumes ws: "wellScoped (scopeChain s)"
    and key: "afterRewrite reg expr = FieldAccessTypedExpr t x ins"
    and cols: "list_all isInputKind ins"
    and run: "compileExpression n reg fc ecf expr s = Some (Inr (p, s'))"
  shows "map captureLists (scopeChain s')
           = map captureLists (captureDiscovery x (nextPtr s) (FieldAccessTypedExpr t x ins) (scopeChain s))"
proof (cases "visited (scope s) (FieldAccessTypedExpr t x ins)")
  case None
  have "capturesClosed (scopeChain s)" using ws by (simp add: wellScoped_def)
  then show ?thesis using key cols None run by (rule compileExpression_reference)
next
  case (Some q)
  obtain m where n: "n = Suc m" using run by (cases n) auto
  have "visited (scope s) (afterRewrite reg expr) = Some q" using Some key by simp
  from compileExpression_known[OF this, of m fc ecf] run
  have same: "map captureLists (scopeChain s') = map captureLists (scopeChain s)"
    unfolding n by auto
  have "captureDiscovery x (nextPtr s) (FieldAccessTypedExpr t x ins) (scopeChain s) = scopeChain s"
    unfolding scopeChain_def
    using ws Some isInputColumn_input_row[OF cols]
    by (intro known_reference_captured) (simp_all add: scopeChain_def)
  then show ?thesis using same by simp
qed

lemma wellScoped_nestedExampleState: "wellScoped (scopeChain nestedExampleState)"
  by (auto simp: wellScoped_def scopeCaptured_def nestedExampleState_def scopeChain_def exampleState_def
      newScope_def addCapture_def column_def)

lemma rewritesKeepReferences_example: "rewritesKeepReferences exampleRegistry"
  by (simp add: rewritesKeepReferences_def exampleRegistry_def)

text \<open>
  C5. Capture minimality and capture discovery.

  Minimality: when no registered rewrite brings in a reference, a lambda whose body
  references only names among its formal parameters compiles to a node with an empty
  capture list.

  Discovery, of the compilation: let an expression be, after the registered rewrites, a
  reference to the column \<open>x\<close> of the input row, compiled in a well-scoped chain of scopes.
  The defining scope of \<open>x\<close> is the first scope, from the current one outwards, that has
  \<open>x\<close> as a formal parameter, or the top-level scope when there is none. After the
  compilation every scope before the defining scope, whose formal parameters therefore
  do not contain \<open>x\<close>, has \<open>x\<close> at the end of its capture list (with the reference, the
  node created for it, and the field access at the end of the two lists beside it) when
  its capture list did not contain \<open>x\<close>, and the capture lists it had when it did; the
  defining scope and the scopes outside it have the capture lists they had. So \<open>x\<close> is
  appended once, and the captures of a scope are in the order in which they were first
  met. This holds as well of a reference compiled before in the scope, which is reused:
  the name is captured already wherever it has to be.

  Discovery, of \<^verbatim>\<open>captureFieldReference\<close> alone: in a chain with closed capture lists it
  changes the scopes as described, and keeps the capture lists closed.

  The lambda node: a lambda compiled in a well-scoped chain is a node over the compiled
  body with one capture reference for each name that the compilation of the body
  captured in the scope of the lambda.

  A chain is well-scoped in every state of a compilation: the initial one is, and every
  compilation that returns keeps it so.
\<close>

theorem lambda_captures:
  "(rewritesKeepReferences reg \<longrightarrow> freeReferences body \<subseteq> set (map fst signature) \<longrightarrow>
      compileLambda n reg flatteningCandidates enableConstantFolding signature body s = Some (Inr (result, s')) \<longrightarrow>
      (\<exists>p compiledBody. result = Some p \<and> node (heap s' p) = LambdaExpr signature [] compiledBody))
   \<and> (wellScoped (scopeChain s) \<longrightarrow>
        afterRewrite reg expr = FieldAccessTypedExpr t x ins \<longrightarrow> list_all isInputKind ins \<longrightarrow>
        compileExpression n reg flatteningCandidates enableConstantFolding expr s = Some (Inr (compiled, s2)) \<longrightarrow>
        map captureLists (scopeChain s2)
          = map captureLists (captureDiscovery x (nextPtr s) (FieldAccessTypedExpr t x ins) (scopeChain s)))
   \<and> (capturesClosed (scopeChain s) \<longrightarrow>
        scopeChain (captureFieldReference reference fieldAccess s)
          = captureDiscovery (field (heap s reference)) reference fieldAccess (scopeChain s)
        \<and> capturesClosed (scopeChain (captureFieldReference reference fieldAccess s)))
   \<and> (wellScoped (scopeChain s) \<longrightarrow>
        compileLambda n reg flatteningCandidates enableConstantFolding signature body s = Some (Inr (result, s')) \<longrightarrow>
        (\<exists>p references compiledBody s1.
           compileExpression n reg flatteningCandidates enableConstantFolding body
             (s\<lparr>scope := newScope (map fst signature), parents := scope s # parents s\<rparr>)
             = Some (Inr (compiledBody, s1))
           \<and> result = Some p \<and> node (heap s' p) = LambdaExpr signature references compiledBody
           \<and> length references = length (capture (scope s1))))
   \<and> wellScoped (scopeChain (initialState es))
   \<and> (wellScoped (scopeChain s) \<longrightarrow>
        compileExpression n reg flatteningCandidates enableConstantFolding expr s = Some (Inr (compiled, s2)) \<longrightarrow>
        wellScoped (scopeChain s2))"
proof (intro conjI impI)
  assume keep: "rewritesKeepReferences reg" and free: "freeReferences body \<subseteq> set (map fst signature)"
    and run: "compileLambda n reg flatteningCandidates enableConstantFolding signature body s = Some (Inr (result, s'))"
  show "\<exists>p compiledBody. result = Some p \<and> node (heap s' p) = LambdaExpr signature [] compiledBody"
    using keep run free by (rule compileLambda_no_captures)
next
  assume "wellScoped (scopeChain s)" "afterRewrite reg expr = FieldAccessTypedExpr t x ins"
    "list_all isInputKind ins"
    "compileExpression n reg flatteningCandidates enableConstantFolding expr s = Some (Inr (compiled, s2))"
  then show "map captureLists (scopeChain s2)
          = map captureLists (captureDiscovery x (nextPtr s) (FieldAccessTypedExpr t x ins) (scopeChain s))"
    by (rule compileExpression_discovery)
next
  assume "capturesClosed (scopeChain s)"
  then show "scopeChain (captureFieldReference reference fieldAccess s)
          = captureDiscovery (field (heap s reference)) reference fieldAccess (scopeChain s)"
    unfolding captureFieldReference_chain captureDiscovery_def by (rule captureChain_discovery)
next
  assume "capturesClosed (scopeChain s)"
  then show "capturesClosed (scopeChain (captureFieldReference reference fieldAccess s))"
    unfolding captureFieldReference_chain by (rule captureChain_closed)
next
  assume ws: "wellScoped (scopeChain s)"
    and run: "compileLambda n reg flatteningCandidates enableConstantFolding signature body s = Some (Inr (result, s'))"
  show "\<exists>p references compiledBody s1.
           compileExpression n reg flatteningCandidates enableConstantFolding body
             (s\<lparr>scope := newScope (map fst signature), parents := scope s # parents s\<rparr>)
             = Some (Inr (compiledBody, s1))
           \<and> result = Some p \<and> node (heap s' p) = LambdaExpr signature references compiledBody
           \<and> length references = length (capture (scope s1))"
    by (rule compileLambda_wellScoped[rotated, OF run ws, THEN conjunct2])
       (erule compileExpression_wellScoped, assumption)
next
  show "wellScoped (scopeChain (initialState es))" by (rule wellScoped_initialState)
next
  assume "wellScoped (scopeChain s)"
    "compileExpression n reg flatteningCandidates enableConstantFolding expr s = Some (Inr (compiled, s2))"
  then show "wellScoped (scopeChain s2)" by (rule compileExpression_wellScoped[rotated])
qed

text \<open>
  The lambda \<^verbatim>\<open>k -> plus(k, 1)\<close> has no capture. A reference to \<^verbatim>\<open>x\<close> compiled inside \<^verbatim>\<open>v\<close>
  within \<^verbatim>\<open>k\<close>, where \<^verbatim>\<open>k\<close> has captured \<^verbatim>\<open>y\<close> and \<^verbatim>\<open>x\<close> before: \<^verbatim>\<open>x\<close>, with the new node 3,
  becomes the one capture of the inner lambda, the captures of the outer lambda and the
  top-level scope stay; \<^verbatim>\<open>captureFieldReference\<close> alone does the same. The lambda
  \<^verbatim>\<open>k -> (v -> plus(v, x))\<close> compiles to a node with one capture, over the node of
  \<^verbatim>\<open>v -> plus(v, x)\<close>, which has one capture as well, a reference to \<^verbatim>\<open>x\<close>; the state after
  it is well-scoped.
\<close>

theorem lambda_captures_witness:
  "(\<exists>p compiledBody s'.
      compileLambda 2 exampleRegistry {} False [(''k'', bigintType)] incrementLambdaBody
        (initialState (exampleExprSet False)) = Some (Inr (Some p, s'))
      \<and> node (heap s' p) = LambdaExpr [(''k'', bigintType)] [] compiledBody)
   \<and> map captureLists (scopeChain (compiledState
         (compileExpression 1 exampleRegistry {} False (column bigintType ''x'') nestedExampleState)))
        = [([''x''], [3], [column bigintType ''x'']),
           ([''y'', ''x''], [2, 1], [column bigintType ''y'', column bigintType ''x'']),
           ([], [], [])]
   \<and> map capture (scopeChain (captureFieldReference 1 (column bigintType ''x'') nestedExampleState))
        = [[''x''], [''y'', ''x''], []]
   \<and> capturesClosed (scopeChain (captureFieldReference 1 (column bigintType ''x'') nestedExampleState))
   \<and> (\<exists>p references compiledBody s'.
         compileLambda 4 exampleRegistry {} False [(''k'', bigintType)] innerLambda
           (initialState (exampleExprSet False)) = Some (Inr (Some p, s'))
         \<and> node (heap s' p) = LambdaExpr [(''k'', bigintType)] references compiledBody
         \<and> length references = 1
         \<and> (\<exists>inner. node (heap s' compiledBody) = LambdaExpr [(''v'', bigintType)] [inner] 3
               \<and> node (heap s' inner) = FieldReference (FieldName ''x'')))
   \<and> wellScoped (scopeChain (compiledState
         (compileExpression 5 exampleRegistry {} False nestedLambda (initialState (exampleExprSet False)))))"
proof -
  let ?s = "initialState (exampleExprSet False)"
  let ?x = "column bigintType ''x''"
  have run: "\<exists>result s'. compileLambda 2 exampleRegistry {} False [(''k'', bigintType)] incrementLambdaBody ?s
      = Some (Inr (result, s'))"
    by (simp add: incrementLambdaBody_def example_simps compile_simps eval_nat_numeral)
  then obtain result s' where r: "compileLambda 2 exampleRegistry {} False [(''k'', bigintType)] incrementLambdaBody ?s
      = Some (Inr (result, s'))" by blast
  have free: "freeReferences incrementLambdaBody \<subseteq> set (map fst [(''k'', bigintType)])"
    by (simp add: incrementLambdaBody_def column_def intConstant_def isInputColumn_def)
  have closed: "capturesClosed (scopeChain nestedExampleState)"
    using wellScoped_nestedExampleState by (simp add: wellScoped_def)
  have ws0: "wellScoped (scopeChain ?s)" by (rule wellScoped_initialState)
  have nested: "compileExpression 5 exampleRegistry {} False nestedLambda ?s
      = Some (Inr (7, compiledState (compileExpression 5 exampleRegistry {} False nestedLambda ?s)))"
    by (simp add: compiledState_def nestedLambda_def example_simps compile_simps eval_nat_numeral)
  have key: "afterRewrite exampleRegistry ?x = FieldAccessTypedExpr bigintType ''x'' []"
    by (simp add: afterRewrite_def exampleRegistry_def column_def)
  have cols: "list_all isInputKind []" by simp
  have ref: "compileExpression 1 exampleRegistry {} False ?x nestedExampleState
      = Some (Inr (3, compiledState (compileExpression 1 exampleRegistry {} False ?x nestedExampleState)))"
    by (simp add: compiledState_def nestedExampleState_def example_simps compile_simps)
  note t1 = lambda_captures[where reg = exampleRegistry and body = incrementLambdaBody
      and signature = "[(''k'', bigintType)]" and n = 2 and flatteningCandidates = "{}"
      and enableConstantFolding = False and s = ?s and result = result and s' = s',
      THEN conjunct1, rule_format, OF rewritesKeepReferences_example free r]
  note t2 = lambda_captures[where s = nestedExampleState and reg = exampleRegistry and expr = ?x
      and t = bigintType and x = "''x''" and ins = "[]" and n = 1 and flatteningCandidates = "{}"
      and enableConstantFolding = False and compiled = 3
      and ?s2.0 = "compiledState (compileExpression 1 exampleRegistry {} False ?x nestedExampleState)",
      THEN conjunct2, THEN conjunct1, rule_format, OF wellScoped_nestedExampleState key cols ref]
  note t3 = lambda_captures[where s = nestedExampleState and reference = 1
      and fieldAccess = ?x, THEN conjunct2, THEN conjunct2, THEN conjunct1, rule_format, OF closed]
  note t6 = lambda_captures[where s = ?s and n = 5 and reg = exampleRegistry and flatteningCandidates = "{}"
      and enableConstantFolding = False and expr = nestedLambda and compiled = 7
      and ?s2.0 = "compiledState (compileExpression 5 exampleRegistry {} False nestedLambda ?s)",
      THEN conjunct2, THEN conjunct2, THEN conjunct2, THEN conjunct2, THEN conjunct2, rule_format,
      OF ws0 nested]
  have a: "\<exists>p compiledBody s'.
      compileLambda 2 exampleRegistry {} False [(''k'', bigintType)] incrementLambdaBody ?s = Some (Inr (Some p, s'))
      \<and> node (heap s' p) = LambdaExpr [(''k'', bigintType)] [] compiledBody"
    using t1 r by blast
  have disc: "map captureLists (captureDiscovery ''x'' 3 ?x (scopeChain nestedExampleState))
        = [([''x''], [3], [?x]), ([''y'', ''x''], [2, 1], [column bigintType ''y'', ?x]), ([], [], [])]"
    by (simp add: captureDiscovery_def nestedExampleState_def scopeChain_def exampleState_def newScope_def
        addCapture_def definingScope_def captureLists_def)
  have n3: "nextPtr nestedExampleState = 3" by (simp add: nestedExampleState_def exampleState_def)
  have b: "map captureLists (scopeChain (compiledState
         (compileExpression 1 exampleRegistry {} False ?x nestedExampleState)))
        = [([''x''], [3], [?x]), ([''y'', ''x''], [2, 1], [column bigintType ''y'', ?x]), ([], [], [])]"
    using t2 unfolding n3 disc[unfolded column_def[of bigintType "''x''"]] column_def[of bigintType "''x''"]
    by (simp add: column_def)
  have c: "map capture (scopeChain (captureFieldReference 1 ?x nestedExampleState))
        = [[''x''], [''y'', ''x''], []]"
    unfolding t3[THEN conjunct1]
    by (simp add: captureDiscovery_def nestedExampleState_def scopeChain_def exampleState_def newScope_def
        addCapture_def definingScope_def makeExpr_def)
  have lam: "\<exists>s'. compileLambda 4 exampleRegistry {} False [(''k'', bigintType)] innerLambda ?s = Some (Inr (Some 7, s'))
      \<and> node (heap s' 5) = LambdaExpr [(''v'', bigintType)] [4] 3
      \<and> node (heap s' 4) = FieldReference (FieldName ''x'')"
    by (simp add: innerLambda_def example_simps compile_simps eval_nat_numeral)
  then obtain lambdaState where
    lam1: "compileLambda 4 exampleRegistry {} False [(''k'', bigintType)] innerLambda ?s = Some (Inr (Some 7, lambdaState))"
    and nodes: "node (heap lambdaState 5) = LambdaExpr [(''v'', bigintType)] [4] 3"
      "node (heap lambdaState 4) = FieldReference (FieldName ''x'')"
    by blast
  note t4 = lambda_captures[where s = ?s and n = 4 and reg = exampleRegistry and flatteningCandidates = "{}"
      and enableConstantFolding = False and signature = "[(''k'', bigintType)]" and body = innerLambda
      and result = "Some 7" and s' = lambdaState,
      THEN conjunct2, THEN conjunct2, THEN conjunct2, THEN conjunct1, rule_format, OF ws0 lam1]
  have body: "compileExpression 4 exampleRegistry {} False innerLambda
             (?s\<lparr>scope := newScope (map fst [(''k'', bigintType)]), parents := scope ?s # parents ?s\<rparr>)
      = Some (Inr (5, compiledState (compileExpression 4 exampleRegistry {} False innerLambda
             (?s\<lparr>scope := newScope (map fst [(''k'', bigintType)]), parents := scope ?s # parents ?s\<rparr>))))"
    by (simp add: compiledState_def innerLambda_def example_simps compile_simps eval_nat_numeral)
  have cap: "capture (scope (compiledState (compileExpression 4 exampleRegistry {} False innerLambda
             (?s\<lparr>scope := newScope (map fst [(''k'', bigintType)]), parents := scope ?s # parents ?s\<rparr>)))) = [''x'']"
    by (simp add: compiledState_def innerLambda_def example_simps compile_simps eval_nat_numeral)
  have d: "\<exists>p references compiledBody s'.
         compileLambda 4 exampleRegistry {} False [(''k'', bigintType)] innerLambda ?s = Some (Inr (Some p, s'))
         \<and> node (heap s' p) = LambdaExpr [(''k'', bigintType)] references compiledBody
         \<and> length references = 1
         \<and> (\<exists>inner. node (heap s' compiledBody) = LambdaExpr [(''v'', bigintType)] [inner] 3
               \<and> node (heap s' inner) = FieldReference (FieldName ''x''))"
  proof -
    from t4 obtain references compiledBody s1 where
      1: "compileExpression 4 exampleRegistry {} False innerLambda
             (?s\<lparr>scope := newScope (map fst [(''k'', bigintType)]), parents := scope ?s # parents ?s\<rparr>)
            = Some (Inr (compiledBody, s1))"
      and 2: "node (heap lambdaState 7) = LambdaExpr [(''k'', bigintType)] references compiledBody"
      and 3: "length references = length (capture (scope s1))"
      by auto
    have "compiledBody = 5" and "s1 = compiledState (compileExpression 4 exampleRegistry {} False innerLambda
             (?s\<lparr>scope := newScope (map fst [(''k'', bigintType)]), parents := scope ?s # parents ?s\<rparr>))"
      using trans[OF 1[symmetric] body] by simp_all
    then have "length references = 1" and "compiledBody = 5" using 3 cap by simp_all
    then show ?thesis using lam1 2 nodes by (intro exI conjI) auto
  qed
  show ?thesis using a b c t3[THEN conjunct2] d t6 by (intro conjI)
qed

end
